theory Spec2Isabelle
  imports Complex_Main "HOL-Library.Word" "HOL-Library.Signed_Division"
begin

unbundle bit_operations_syntax

section \<open>The RAPPOR client encoder (client/cpp/encoder.cc)\<close>

text \<open>
  A shallow embedding of \<^verbatim>\<open>rappor::Encoder\<close>. What the code takes from its header
  \<^verbatim>\<open>encoder.h\<close> is embedded as follows.

  \<^item> \<^verbatim>\<open>Bits\<close> is an unsigned integer type whose width is a parameter: a bit-vector is an
    \<open>'a word\<close>, and \<^verbatim>\<open>sizeof(Bits) * 8\<close> is \<open>LENGTH('a)\<close>. Every general theorem below
    holds for each width; concrete evaluations fix 32 or 64 bits.
  \<^item> \<^verbatim>\<open>int\<close> members (\<^verbatim>\<open>num_bits_\<close>, \<^verbatim>\<open>num_hashes_\<close>, \<^verbatim>\<open>cohort_\<close>, loop counters) are
    embedded as the integer they hold. The code only compares them, takes \<^verbatim>\<open>% 8\<close>,
    \<^verbatim>\<open>/ 8\<close> and \<^verbatim>\<open>& 0xFF\<close> of them and counts up to them, none of which can overflow;
    \<^verbatim>\<open>%\<close> and \<^verbatim>\<open>/\<close> truncate towards zero (\<open>smod\<close>, \<open>sdiv\<close>).
  \<^item> The two shifts \<^verbatim>\<open>1 << bit_to_set\<close> and \<^verbatim>\<open>u_bit << i\<close> are computed in \<^verbatim>\<open>int\<close>
    (the operands are promoted), where overflow matters: they are modelled on
    \<open>32 word\<close> and converted to \<^verbatim>\<open>Bits\<close> the way C++ converts an \<^verbatim>\<open>int\<close>, by value
    (sign extension when \<^verbatim>\<open>Bits\<close> is wider, truncation when it is narrower).
  \<^item> \<^verbatim>\<open>prob_f_\<close> is a binary floating-point number embedded as the real number it
    denotes; multiplying it by 128 is exact in floating point.
  \<^item> \<^verbatim>\<open>std::string\<close> is a \<open>string\<close> (a list of 8-bit characters); the digests
    \<^verbatim>\<open>Md5Digest\<close> and \<^verbatim>\<open>Sha256Digest\<close> are arrays of unsigned bytes, here lists of
    \<open>8 word\<close> whose length is the size of the array.
  \<^item> Writing to \<^verbatim>\<open>stderr\<close> (\<^verbatim>\<open>log\<close>, \<^verbatim>\<open>PrintMd5\<close>, \<^verbatim>\<open>PrintSha256\<close>) is not modelled.

  Operations whose behaviour C++ leaves undefined, and the failing \<^verbatim>\<open>assert\<close>, are
  branches of the model: every function returns \<open>error + result\<close>.
\<close>

subsection \<open>Data\<close>

datatype error =
    DivisionByZero          \<comment> \<open>\<^verbatim>\<open>x % 0\<close>\<close>
  | ShiftOutOfRange         \<comment> \<open>\<^verbatim>\<open>x << n\<close> on \<^verbatim>\<open>int\<close> with \<open>n\<close> outside \<open>0 .. 31\<close>\<close>
  | IndexOutOfRange         \<comment> \<open>reading a digest array past its end\<close>
  | AssertionFailed         \<comment> \<open>\<^verbatim>\<open>assert(num_bits_ <= 32)\<close> aborts\<close>
  | ConversionOutOfRange    \<comment> \<open>floating point to \<^verbatim>\<open>uint8_t\<close> of a value that does not fit\<close>

type_synonym Md5Digest = "8 word list"
type_synonym Sha256Digest = "8 word list"

type_synonym Md5Func = "string \<Rightarrow> Md5Digest"
type_synonym HmacFunc = "string \<Rightarrow> string \<Rightarrow> Sha256Digest"

text \<open>
  \<^verbatim>\<open>IrrRandInterface\<close>: \<^verbatim>\<open>PMask(Bits*)\<close> and \<^verbatim>\<open>QMask(Bits*)\<close> return \<^verbatim>\<open>false\<close> when no mask
  could be drawn. The entropy they consume is state outside the encoder: a draw takes
  the state \<open>'r\<close> of the source and returns the mask, if any, and the state after it.
\<close>

record ('b, 'r) IrrRandInterface =
  PMask :: "'r \<Rightarrow> 'b option \<times> 'r"
  QMask :: "'r \<Rightarrow> 'b option \<times> 'r"

record Params =
  num_bits :: int
  num_hashes :: int
  prob_f :: real

record ('b, 'r) Deps =
  cohort :: int
  md5_func :: Md5Func
  client_secret :: string
  hmac_func :: HmacFunc
  irr_rand :: "('b, 'r) IrrRandInterface"

text \<open>
  The members of \<^verbatim>\<open>Encoder\<close> (\<^verbatim>\<open>num_bits_\<close>, ..., \<^verbatim>\<open>is_valid_\<close> in the source; the short
  names below denote these members, the fields of \<open>Params\<close> and \<open>Deps\<close> are written
  qualified).
\<close>

record ('b, 'r) Encoder =
  num_bits :: int
  num_hashes :: int
  prob_f :: real
  cohort :: int
  md5_func :: Md5Func
  client_secret :: string
  hmac_func :: HmacFunc
  irr_rand :: "('b, 'r) IrrRandInterface"
  num_bytes :: int
  is_valid :: bool

text \<open>
  An output parameter (\<^verbatim>\<open>Bits*\<close>) points to a cell of the caller. A cell is \<open>None\<close> while
  nothing has been assigned to it (a declared, uninitialised \<^verbatim>\<open>Bits\<close>) and \<open>Some v\<close>
  once it holds \<open>v\<close>. A function with output parameters takes the cells as they are
  before the call and returns them as they are after it.
\<close>

type_synonym 'b cell = "'b option"

subsection \<open>Construction and validity\<close>

definition kMaxBits :: "'a::len itself \<Rightarrow> int" where
  "kMaxBits _ = int (LENGTH('a))"

text \<open>
  \<^verbatim>\<open>Encoder(params, cohort, md5_func, client_secret, hmac_func, irr_rand)\<close>:
  \<^verbatim>\<open>num_bytes_(0), is_valid_(true)\<close>, then the two checks of the body.
\<close>

definition Encoder_init ::
  "Params \<Rightarrow> int \<Rightarrow> Md5Func \<Rightarrow> string \<Rightarrow> HmacFunc \<Rightarrow> ('a::len word, 'r) IrrRandInterface
     \<Rightarrow> ('a word, 'r) Encoder" where
  "Encoder_init params cohort' md5_func' client_secret' hmac_func' irr_rand' =
     (let e0 = \<lparr> num_bits = Params.num_bits params,
                 num_hashes = Params.num_hashes params,
                 prob_f = Params.prob_f params,
                 cohort = cohort',
                 md5_func = md5_func',
                 client_secret = client_secret',
                 hmac_func = hmac_func',
                 irr_rand = irr_rand',
                 num_bytes = 0,
                 is_valid = True \<rparr>;
          e1 = (if num_bits e0 > kMaxBits TYPE('a) then e0\<lparr> is_valid := False \<rparr> else e0)
      in if num_bits e1 smod 8 = 0
         then e1\<lparr> num_bytes := num_bits e1 sdiv 8 \<rparr>
         else e1\<lparr> is_valid := False \<rparr>)"

text \<open>
  \<^verbatim>\<open>Encoder(params, deps)\<close> has an empty body and no initialiser for \<^verbatim>\<open>num_bytes_\<close> and
  \<^verbatim>\<open>is_valid_\<close>: the two members keep whatever the object's storage held. That
  indeterminate content is the pair of arguments \<open>stale_num_bytes\<close>, \<open>stale_is_valid\<close>.
\<close>

definition Encoder_init_deps ::
  "Params \<Rightarrow> ('a::len word, 'r) Deps \<Rightarrow> int \<Rightarrow> bool \<Rightarrow> ('a word, 'r) Encoder" where
  "Encoder_init_deps params deps stale_num_bytes stale_is_valid =
     \<lparr> num_bits = Params.num_bits params,
       num_hashes = Params.num_hashes params,
       prob_f = Params.prob_f params,
       cohort = Deps.cohort deps,
       md5_func = Deps.md5_func deps,
       client_secret = Deps.client_secret deps,
       hmac_func = Deps.hmac_func deps,
       irr_rand = Deps.irr_rand deps,
       num_bytes = stale_num_bytes,
       is_valid = stale_is_valid \<rparr>"

definition IsValid :: "('b, 'r) Encoder \<Rightarrow> bool" where
  "IsValid e = is_valid e"

subsection \<open>C++ primitives used by the encoder\<close>

text \<open>Reading element \<open>i\<close> of a digest array.\<close>

definition byte_at :: "8 word list \<Rightarrow> int \<Rightarrow> error + 8 word" where
  "byte_at digest i =
     (if 0 \<le> i \<and> i < int (length digest) then Inr (digest ! nat i) else Inl IndexOutOfRange)"

text \<open>\<^verbatim>\<open>a % b\<close> on \<^verbatim>\<open>int\<close>.\<close>

definition rem_int :: "int \<Rightarrow> int \<Rightarrow> error + int" where
  "rem_int a b = (if b = 0 then Inl DivisionByZero else Inr (a smod b))"

text \<open>
  \<^verbatim>\<open>x << n\<close> on \<^verbatim>\<open>int\<close>, for the non-negative \<open>x\<close> the encoder shifts (0 or 1). A shift
  count outside \<open>0 .. 31\<close> is undefined; \<^verbatim>\<open>1 << 31\<close> is the \<^verbatim>\<open>int\<close> with only the sign bit
  set.
\<close>

definition shl_int :: "32 word \<Rightarrow> int \<Rightarrow> error + 32 word" where
  "shl_int x n = (if 0 \<le> n \<and> n < 32 then Inr (push_bit (nat n) x) else Inl ShiftOutOfRange)"

text \<open>
  \<^verbatim>\<open>bits |= x\<close> for \<^verbatim>\<open>Bits bits\<close> and \<^verbatim>\<open>int x\<close>: \<open>x\<close> is converted to \<^verbatim>\<open>Bits\<close> by value.
\<close>

definition or_assign :: "'a::len word \<Rightarrow> 32 word \<Rightarrow> 'a word" where
  "or_assign bits x = bits OR scast x"

text \<open>
  \<^verbatim>\<open>static_cast<uint8_t>(x)\<close> for a floating-point \<open>x\<close>: the fractional part is
  discarded; undefined unless the truncated value fits \<^verbatim>\<open>uint8_t\<close>.
\<close>

definition to_uint8 :: "real \<Rightarrow> error + 8 word" where
  "to_uint8 x =
     (let t = (if 0 \<le> x then \<lfloor>x\<rfloor> else \<lceil>x\<rceil>)
      in if 0 \<le> t \<and> t < 256 then Inr (word_of_int t) else Inl ConversionOutOfRange)"

subsection \<open>MakeBloomFilter\<close>

text \<open>
  The digest input: four bytes \<^verbatim>\<open>[0 0 0 <cohort_ & 0xFF>]\<close>, then the bytes of \<open>value\<close>.
\<close>

definition hash_input :: "('b, 'r) Encoder \<Rightarrow> string \<Rightarrow> string" where
  "hash_input e value =
     (let c = char_of (cohort e AND 0xFF)
      in [CHR 0x00, CHR 0x00, CHR 0x00, c] @ value)"

text \<open>
  \<^verbatim>\<open>for (int i = 0; i < num_hashes_; ++i) { int bit_to_set = md5[i] % num_bits_;
  bloom |= 1 << bit_to_set; }\<close>, entered at counter \<open>i\<close> with \<open>bloom\<close> so far.
\<close>

function bloom_loop ::
  "('a::len word, 'r) Encoder \<Rightarrow> Md5Digest \<Rightarrow> int \<Rightarrow> 'a word \<Rightarrow> error + 'a word" where
  "bloom_loop e md5 i bloom =
     (if i < num_hashes e then
        (case byte_at md5 i of
           Inl err \<Rightarrow> Inl err
         | Inr byte \<Rightarrow>
            (case rem_int (uint byte) (num_bits e) of
               Inl err \<Rightarrow> Inl err
             | Inr bit_to_set \<Rightarrow>
                (case shl_int 1 bit_to_set of
                   Inl err \<Rightarrow> Inl err
                 | Inr one_bit \<Rightarrow> bloom_loop e md5 (i + 1) (or_assign bloom one_bit))))
      else Inr bloom)"
  by pat_completeness auto
termination
  by (relation "measure (\<lambda>(e, md5, i, bloom). nat (num_hashes e - i))") auto

definition MakeBloomFilter :: "('a::len word, 'r) Encoder \<Rightarrow> string \<Rightarrow> error + 'a word" where
  "MakeBloomFilter e value =
     (let md5 = md5_func e (hash_input e value)
      in bloom_loop e md5 0 0)"

subsection \<open>GetPrrMasks\<close>

text \<open>
  The loop over the bytes of the keyed digest, entered at counter \<open>i\<close> with the two
  masks so far. \<^verbatim>\<open>u_bit\<close> and \<^verbatim>\<open>noise_bit\<close> are \<^verbatim>\<open>uint8_t\<close>, promoted to \<^verbatim>\<open>int\<close> for the
  shift.
\<close>

function prr_loop ::
  "('a::len word, 'r) Encoder \<Rightarrow> Sha256Digest \<Rightarrow> 8 word \<Rightarrow> int \<Rightarrow> 'a word \<Rightarrow> 'a word
     \<Rightarrow> error + ('a word \<times> 'a word)" where
  "prr_loop e sha256 threshold128 i uniform f_mask =
     (if i < num_bits e then
        (case byte_at sha256 i of
           Inl err \<Rightarrow> Inl err
         | Inr byte \<Rightarrow>
            (let u_bit = byte AND 0x01 in
             case shl_int (ucast u_bit) i of
               Inl err \<Rightarrow> Inl err
             | Inr u_shifted \<Rightarrow>
                (let uniform' = or_assign uniform u_shifted;
                     rand128 = drop_bit 1 byte;
                     noise_bit = (if rand128 < threshold128 then 1 else 0 :: 8 word) in
                 case shl_int (ucast noise_bit) i of
                   Inl err \<Rightarrow> Inl err
                 | Inr n_shifted \<Rightarrow>
                     prr_loop e sha256 threshold128 (i + 1) uniform'
                       (or_assign f_mask n_shifted))))
      else Inr (uniform, f_mask))"
  by pat_completeness auto
termination
  by (relation "measure (\<lambda>(e, sha256, t, i, u, f). nat (num_bits e - i))") auto

text \<open>Returns the cells \<^verbatim>\<open>*uniform_out\<close> and \<^verbatim>\<open>*f_mask_out\<close> as a pair.\<close>

definition GetPrrMasks ::
  "('a::len word, 'r) Encoder \<Rightarrow> string \<Rightarrow> error + ('a word \<times> 'a word)" where
  "GetPrrMasks e value =
     (let sha256 = hmac_func e (client_secret e) value
      in if \<not> num_bits e \<le> 32 then Inl AssertionFailed
         else (case to_uint8 (prob_f e * 128) of
                 Inl err \<Rightarrow> Inl err
               | Inr threshold128 \<Rightarrow> prr_loop e sha256 threshold128 0 0 0))"

subsection \<open>Encoding\<close>

text \<open>
  \<^verbatim>\<open>_EncodeInternal(value, bloom_out, prr_out, irr_out)\<close>. The arguments \<open>bloom_out\<close>,
  \<open>prr_out\<close>, \<open>irr_out\<close> are the caller's cells before the call and \<open>r\<close> the state of the
  mask source; the result is the returned flag, the three cells after the call and the
  state of the mask source after the draws that were made.
\<close>

definition EncodeInternal ::
  "('a::len word, 'r) Encoder \<Rightarrow> string \<Rightarrow> 'a word cell \<Rightarrow> 'a word cell \<Rightarrow> 'a word cell \<Rightarrow> 'r
     \<Rightarrow> error + (bool \<times> 'a word cell \<times> 'a word cell \<times> 'a word cell \<times> 'r)" where
  "EncodeInternal e value bloom_out prr_out irr_out r =
     (case MakeBloomFilter e value of
        Inl err \<Rightarrow> Inl err
      | Inr bloom \<Rightarrow>
         (let bloom_out' = Some bloom in
          case GetPrrMasks e value of
            Inl err \<Rightarrow> Inl err
          | Inr (uniform, f_mask) \<Rightarrow>
             (let prr = (bloom AND NOT f_mask) OR (uniform AND f_mask);
                  prr_out' = Some prr in
              case PMask (irr_rand e) r of
                (None, r1) \<Rightarrow> Inr (False, bloom_out', prr_out', irr_out, r1)
              | (Some p_bits, r1) \<Rightarrow>
                 (case QMask (irr_rand e) r1 of
                    (None, r2) \<Rightarrow> Inr (False, bloom_out', prr_out', irr_out, r2)
                  | (Some q_bits, r2) \<Rightarrow>
                     (let irr = (p_bits AND NOT prr) OR (q_bits AND prr)
                      in Inr (True, bloom_out', prr_out', Some irr, r2))))))"

text \<open>
  \<^verbatim>\<open>Encode(value, irr_out)\<close>: the locals \<^verbatim>\<open>unused_bloom\<close> and \<^verbatim>\<open>unused_prr\<close> are declared
  without initialiser and dropped at the return.
\<close>

definition Encode ::
  "('a::len word, 'r) Encoder \<Rightarrow> string \<Rightarrow> 'a word cell \<Rightarrow> 'r \<Rightarrow> error + (bool \<times> 'a word cell \<times> 'r)" where
  "Encode e value irr_out r =
     (let unused_bloom = None; unused_prr = None in
      case EncodeInternal e value unused_bloom unused_prr irr_out r of
        Inl err \<Rightarrow> Inl err
      | Inr (ok, _, _, irr_out', r') \<Rightarrow> Inr (ok, irr_out', r'))"

declare bloom_loop.simps [simp del] prr_loop.simps [simp del]

subsection \<open>The specification's vocabulary\<close>

text \<open>
  Probe \<open>i\<close> of the Bloom filter addresses bit \<open>digest[i] mod num_bits\<close>; the filter the
  specification describes is the bitwise OR of the one-bit vectors of the probes
  \<open>0 .. num_hashes - 1\<close>.
\<close>

definition probe_bit :: "int \<Rightarrow> Md5Digest \<Rightarrow> nat \<Rightarrow> nat" where
  "probe_bit nb digest i = nat (uint (digest ! i) mod nb)"

definition or_of_probes :: "int \<Rightarrow> int \<Rightarrow> Md5Digest \<Rightarrow> 'a::len word" where
  "or_of_probes nb nh digest =
     fold (\<lambda>i acc. acc OR push_bit (probe_bit nb digest i) 1) [0..<nat nh] 0"

subsection \<open>Test doubles and example encoders\<close>

text \<open>
  Stub digest functions that return a fixed digest, and a mask source that returns
  fixed draws and counts in its state how many draws were made.
\<close>

definition stub_md5 :: "Md5Digest \<Rightarrow> Md5Func" where
  "stub_md5 digest = (\<lambda>input. digest)"

definition stub_hmac :: "Sha256Digest \<Rightarrow> HmacFunc" where
  "stub_hmac digest = (\<lambda>key msg. digest)"

definition fixed_rand :: "'b option \<Rightarrow> 'b option \<Rightarrow> ('b, nat) IrrRandInterface" where
  "fixed_rand p q = \<lparr> PMask = (\<lambda>r. (p, Suc r)), QMask = (\<lambda>r. (q, Suc r)) \<rparr>"

definition md5_bytes :: "8 word \<Rightarrow> 8 word \<Rightarrow> Md5Digest" where
  "md5_bytes b0 b1 = [b0, b1, 0, 0, 0, 0, 0, 0, 0, 0, 0, 0, 0, 0, 0, 0]"

definition sha256_bytes :: "8 word list \<Rightarrow> 8 word \<Rightarrow> Sha256Digest" where
  "sha256_bytes first8 b31 =
     first8 @ [0, 0, 0, 0, 0, 0, 0, 0, 0, 0, 0, 0, 0, 0, 0, 0, 0, 0, 0, 0, 0, 0, 0, b31]"

definition test_encoder ::
  "int \<Rightarrow> int \<Rightarrow> real \<Rightarrow> Md5Digest \<Rightarrow> Sha256Digest \<Rightarrow> 'a word option \<Rightarrow> 'a word option
     \<Rightarrow> ('a::len word, nat) Encoder" where
  "test_encoder nb nh pf md5 sha256 p q =
     Encoder_init \<lparr> Params.num_bits = nb, Params.num_hashes = nh, Params.prob_f = pf \<rparr>
       0 (stub_md5 md5) ''secret'' (stub_hmac sha256) (fixed_rand p q)"

text \<open>
  The end-to-end example of the specification: \<open>num_bits = 8\<close>, \<open>num_hashes = 2\<close>,
  \<open>prob_f = 0\<close>, cohort 0, digest bytes \<open>[3, 5, 0, ...]\<close>, \<open>PMask() = 0xFF\<close>,
  \<open>QMask() = 0x00\<close>.
\<close>

definition spec_example :: "('a::len word, nat) Encoder" where
  "spec_example =
     test_encoder 8 2 0 (md5_bytes 3 5) (sha256_bytes [1, 2, 3, 4, 255, 6, 7, 8] 0)
       (Some 0xFF) (Some 0x00)"

text \<open>The same with \<open>prob_f = 1/2\<close>, so that some positions are noised.\<close>

definition noisy_example :: "'a word option \<Rightarrow> 'a word option \<Rightarrow> ('a::len word, nat) Encoder" where
  "noisy_example p q =
     test_encoder 8 2 (1 / 2) (md5_bytes 3 5) (sha256_bytes [1, 2, 3, 4, 255, 6, 7, 8] 0) p q"

text \<open>
  \<open>num_bits = 32\<close> with a first probe and a last keyed-digest byte that address bit 31.
\<close>

definition top_bit_example :: "('a::len word, nat) Encoder" where
  "top_bit_example =
     test_encoder 32 1 0 (md5_bytes 31 0) (sha256_bytes [0, 0, 0, 0, 0, 0, 0, 0] 1)
       (Some 0) (Some 0)"

text \<open>One probe on digest byte 9, for a chosen \<open>num_bits\<close>.\<close>

definition one_probe_example :: "int \<Rightarrow> ('a::len word, nat) Encoder" where
  "one_probe_example nb =
     test_encoder nb 1 0 (md5_bytes 9 0) (sha256_bytes [1, 2, 3, 4, 255, 6, 7, 8] 0)
       (Some 0) (Some 0)"

text \<open>\<open>num_bits = 0\<close> and \<open>num_bits = 40\<close>.\<close>

definition zero_bits_example :: "('a::len word, nat) Encoder" where
  "zero_bits_example =
     test_encoder 0 1 0 (md5_bytes 3 5) (sha256_bytes [1, 2, 3, 4, 255, 6, 7, 8] 0)
       (Some 0xFF) (Some 0x00)"

definition forty_bits_example :: "('a::len word, nat) Encoder" where
  "forty_bits_example =
     test_encoder 40 2 0 (md5_bytes 3 5) (sha256_bytes [1, 2, 3, 4, 255, 6, 7, 8] 0)
       (Some 0xFF) (Some 0x00)"

text \<open>
  An encoder built by \<^verbatim>\<open>Encoder(params, deps)\<close>, with the content that the storage of
  \<^verbatim>\<open>is_valid_\<close> happened to hold.
\<close>

definition test_deps :: "('a::len word, nat) Deps" where
  "test_deps =
     \<lparr> Deps.cohort = 0,
       Deps.md5_func = stub_md5 (md5_bytes 3 5),
       Deps.client_secret = ''secret'',
       Deps.hmac_func = stub_hmac (sha256_bytes [1, 2, 3, 4, 255, 6, 7, 8] 0),
       Deps.irr_rand = fixed_rand (Some 0xFF) (Some 0x00) \<rparr>"

definition unchecked_example :: "int \<Rightarrow> bool \<Rightarrow> ('a::len word, nat) Encoder" where
  "unchecked_example nb stale_is_valid =
     Encoder_init_deps
       \<lparr> Params.num_bits = nb, Params.num_hashes = 2, Params.prob_f = 0 \<rparr>
       test_deps 0 stale_is_valid"

subsection \<open>Facts about the primitives\<close>

lemmas example_defs =
  spec_example_def noisy_example_def top_bit_example_def
  one_probe_example_def zero_bits_example_def forty_bits_example_def test_deps_def
  unchecked_example_def Encoder_init_deps_def
  test_encoder_def stub_md5_def stub_hmac_def fixed_rand_def md5_bytes_def sha256_bytes_def
  Encoder_init_def kMaxBits_def IsValid_def
  signed_modulo_int_def signed_divide_int_def Let_def

lemmas run_defs =
  MakeBloomFilter_def hash_input_def bloom_loop.simps byte_at_def rem_int_def shl_int_def
  or_assign_def GetPrrMasks_def prr_loop.simps to_uint8_def EncodeInternal_def Encode_def

lemma scast_one_bit:
  fixes n :: nat
  assumes "n < 32" "n < 31 \<or> LENGTH('a::len) \<le> 32"
  shows "(scast (push_bit n (1::32 word)) :: 'a word) = push_bit n 1"
proof (rule bit_word_eqI)
  fix m assume "m < LENGTH('a)"
  with assms
  show "bit (scast (push_bit n (1::32 word)) :: 'a word) m = bit (push_bit n 1 :: 'a word) m"
    by (auto simp: bit_word_scast_iff bit_exp_iff)
qed

lemma scast_bool_bit:
  fixes n :: nat
  assumes "n < 32" "n < 31 \<or> LENGTH('a::len) \<le> 32"
  shows "(scast (push_bit n (ucast (of_bool c :: 8 word) :: 32 word)) :: 'a word)
           = push_bit n (of_bool c)"
  using scast_one_bit [OF assms] by (cases c) simp_all

lemma and_one_of_bool: "(byte :: 8 word) AND 1 = of_bool (bit byte 0)"
  by (simp add: and_one_eq bit_0 mod_2_eq_odd)

lemma bit0_and1: "bit (w :: 8 word) 0 \<longleftrightarrow> w AND 1 = 1"
  by (simp add: and_one_eq bit_0 mod_2_eq_odd)

lemma smod_byte: "0 \<le> a \<Longrightarrow> 0 < b \<Longrightarrow> a smod b = a mod (b::int)"
  by (simp add: signed_modulo_int_def sgn_if)

lemma shl_int_ok: "0 \<le> n \<Longrightarrow> n < 32 \<Longrightarrow> shl_int x n = Inr (push_bit (nat n) x)"
  by (simp add: shl_int_def)

lemma bit_or_one_bit:
  "bit (acc OR push_bit k 1 :: 'a::len word) n \<longleftrightarrow> bit acc n \<or> (n < LENGTH('a) \<and> k = n)"
  by (auto simp: bit_or_iff bit_exp_iff)

lemma bit_push_bool:
  "bit (push_bit k (of_bool c) :: 'a::len word) n \<longleftrightarrow> c \<and> n = k \<and> n < LENGTH('a)"
  by (cases c) (auto simp: bit_exp_iff)

lemma bit_select:
  "bit ((a AND NOT m) OR (b AND m) :: 'a::len word) n = (if bit m n then bit b n else bit a n)"
  by (auto simp: bit_or_iff bit_and_iff bit_not_iff dest: bit_imp_le_length)

lemma and_255: "(k::int) AND 0xFF = k mod 256"
proof -
  have "(k::int) AND mask 8 = k mod 2 ^ 8"
    by (simp only: take_bit_eq_mask [symmetric] take_bit_eq_mod)
  then show ?thesis by (simp add: mask_eq_exp_minus_1)
qed

lemma hash_input_bytes:
  "hash_input e value = [CHR 0x00, CHR 0x00, CHR 0x00, char_of (cohort e mod 256)] @ value"
  by (simp add: hash_input_def and_255)

lemma word8_less_threshold:
  assumes "0 \<le> t" "t < 256"
  shows "(w :: 8 word) < word_of_int t \<longleftrightarrow> uint w < t"
  using assms by (simp add: word_less_def uint_word_of_int take_bit_int_eq_self)

lemma to_uint8_prob:
  assumes "0 \<le> p" "p \<le> 1"
  shows "to_uint8 (p * 128) = Inr (word_of_int \<lfloor>p * 128\<rfloor>)"
    and "0 \<le> \<lfloor>p * 128\<rfloor>" and "\<lfloor>p * 128\<rfloor> < 256"
proof -
  have "p * 128 \<le> 128" using assms by simp
  then have "p * 128 < 256" by linarith
  moreover have "0 \<le> p * 128" using assms by simp
  ultimately show "to_uint8 (p * 128) = Inr (word_of_int \<lfloor>p * 128\<rfloor>)"
    and "0 \<le> \<lfloor>p * 128\<rfloor>" and "\<lfloor>p * 128\<rfloor> < 256"
    by (simp_all add: to_uint8_def Let_def floor_less_iff)
qed

subsection \<open>The Bloom filter loop\<close>

text \<open>
  When no probe reads past the digest and the \<^verbatim>\<open>int\<close> shift is exact in \<^verbatim>\<open>Bits\<close>, the loop
  entered at \<open>i\<close> ORs the one-bit vectors of the probes \<open>i .. num_hashes - 1\<close> into
  \<open>bloom\<close>.
\<close>

lemma bloom_loop_fold:
  fixes e :: "('a::len word, 'r) Encoder"
  assumes "1 \<le> num_bits e" "num_bits e \<le> 32" "LENGTH('a) \<le> 32 \<or> num_bits e < 32"
    and "num_hashes e \<le> int (length md5)" "0 \<le> i"
  shows "bloom_loop e md5 i bloom =
           Inr (fold (\<lambda>j acc. acc OR push_bit (probe_bit (num_bits e) md5 j) 1)
                  [nat i..<nat (num_hashes e)] bloom)"
  using assms
proof (induction e md5 i bloom rule: bloom_loop.induct)
  case (1 e md5 i bloom)
  show ?case
  proof (cases "i < num_hashes e")
    case False
    then show ?thesis by (simp add: bloom_loop.simps)
  next
    case True
    define b where "b = uint (md5 ! nat i) mod num_bits e"
    have b: "0 \<le> b" "b < num_bits e" using "1.prems"(1) by (simp_all add: b_def)
    have rd: "byte_at md5 i = Inr (md5 ! nat i)"
      using True "1.prems" by (simp add: byte_at_def)
    have rm: "rem_int (uint (md5 ! nat i)) (num_bits e) = Inr b"
      using "1.prems"(1) by (simp add: rem_int_def b_def smod_byte)
    have sh: "shl_int 1 b = Inr (push_bit (nat b) 1)"
      using b "1.prems"(2) by (simp add: shl_int_def)
    have oa: "or_assign bloom (push_bit (nat b) 1) = bloom OR push_bit (nat b) 1"
      unfolding or_assign_def using b "1.prems"(2,3)
      by (subst scast_one_bit) auto
    have ih: "bloom_loop e md5 (i + 1) (or_assign bloom (push_bit (nat b) 1)) =
                Inr (fold (\<lambda>j acc. acc OR push_bit (probe_bit (num_bits e) md5 j) 1)
                       [nat (i + 1)..<nat (num_hashes e)]
                       (or_assign bloom (push_bit (nat b) 1)))"
      using "1.IH" [OF True rd rm sh] "1.prems" by simp
    have upt: "[nat i..<nat (num_hashes e)] = nat i # [nat (i + 1)..<nat (num_hashes e)]"
      using True "1.prems"(5) by (simp add: upt_conv_Cons nat_add_distrib)
    have "bloom_loop e md5 i bloom =
            bloom_loop e md5 (i + 1) (or_assign bloom (push_bit (nat b) 1))"
      by (subst bloom_loop.simps) (simp add: True rd rm sh)
    also note ih
    also have "Inr (fold (\<lambda>j acc. acc OR push_bit (probe_bit (num_bits e) md5 j) 1)
                 [nat (i + 1)..<nat (num_hashes e)] (or_assign bloom (push_bit (nat b) 1)))
             = Inr (fold (\<lambda>j acc. acc OR push_bit (probe_bit (num_bits e) md5 j) 1)
                 [nat i..<nat (num_hashes e)] bloom)"
      using oa by (simp add: upt probe_bit_def b_def)
    finally show ?thesis .
  qed
qed

lemma bit_fold_or:
  "bit (fold (\<lambda>j acc. acc OR push_bit (f j) 1) js (acc0 :: 'a::len word)) n \<longleftrightarrow>
     bit acc0 n \<or> (n < LENGTH('a) \<and> (\<exists>j\<in>set js. f j = n))"
proof (induction js arbitrary: acc0)
  case Nil
  show ?case by simp
next
  case (Cons j js)
  have "bit (fold (\<lambda>j acc. acc OR push_bit (f j) 1) (j # js) acc0) n \<longleftrightarrow>
          bit (acc0 OR push_bit (f j) 1) n \<or> (n < LENGTH('a) \<and> (\<exists>j\<in>set js. f j = n))"
    using Cons.IH [of "acc0 OR push_bit (f j) 1"] by simp
  also have "\<dots> \<longleftrightarrow> bit acc0 n \<or> (n < LENGTH('a) \<and> (\<exists>j\<in>set (j # js). f j = n))"
    unfolding bit_or_one_bit by auto
  finally show ?case .
qed

lemma bit_or_of_probes:
  "bit (or_of_probes nb nh digest :: 'a::len word) n \<longleftrightarrow>
     n < LENGTH('a) \<and> (\<exists>i < nat nh. probe_bit nb digest i = n)"
  unfolding or_of_probes_def bit_fold_or by auto

subsection \<open>The PRR mask loop\<close>

text \<open>
  When the keyed digest has a byte for every position and the \<^verbatim>\<open>int\<close> shift is exact in
  \<^verbatim>\<open>Bits\<close>, the loop entered at \<open>i\<close> adds, for each position \<open>n\<close> in \<open>[i, num_bits)\<close>,
  the low bit of byte \<open>n\<close> to \<open>uniform\<close> and the outcome of the threshold test to
  \<open>f_mask\<close>.
\<close>

lemma prr_loop_bits:
  fixes e :: "('a::len word, 'r) Encoder"
  assumes "num_bits e \<le> 32" "LENGTH('a) \<le> 32 \<or> num_bits e < 32"
    and "num_bits e \<le> int (length sha)" "0 \<le> i"
  shows "\<exists>u f. prr_loop e sha t i uniform f_mask = Inr (u, f) \<and>
           (\<forall>n. bit u n \<longleftrightarrow> bit uniform n \<or>
              (n < LENGTH('a) \<and> i \<le> int n \<and> int n < num_bits e \<and> bit (sha ! n) 0)) \<and>
           (\<forall>n. bit f n \<longleftrightarrow> bit f_mask n \<or>
              (n < LENGTH('a) \<and> i \<le> int n \<and> int n < num_bits e \<and> drop_bit 1 (sha ! n) < t))"
  using assms
proof (induction e sha t i uniform f_mask rule: prr_loop.induct)
  case (1 e sha t i uniform f_mask)
  show ?case
  proof (cases "i < num_bits e")
    case False
    then show ?thesis by (subst prr_loop.simps) auto
  next
    case True
    define byte where "byte = sha ! nat i"
    define ub where "ub = bit byte 0"
    define nb where "nb = (drop_bit 1 byte < t)"
    have i32: "nat i < 32" "nat i < 31 \<or> LENGTH('a) \<le> 32"
      using True "1.prems" by auto
    have ir: "0 \<le> i \<and> i < 32" using True "1.prems" by auto
    have rd: "byte_at sha i = Inr byte"
      using True "1.prems" by (simp add: byte_at_def byte_def)
    have e1: "byte AND 0x01 = of_bool ub"
      by (simp add: and_one_of_bool ub_def)
    have e2: "(if drop_bit 1 byte < t then 1 else 0 :: 8 word) = of_bool nb"
      by (simp add: nb_def)
    have sh: "\<And>c. shl_int (ucast (of_bool c :: 8 word)) i
                = Inr (push_bit (nat i) (ucast (of_bool c :: 8 word)))"
      using ir by (intro shl_int_ok) simp_all
    have oa: "\<And>c (w :: 'a word). or_assign w (push_bit (nat i) (ucast (of_bool c :: 8 word)))
                = w OR push_bit (nat i) (of_bool c)"
      unfolding or_assign_def by (simp only: scast_bool_bit [OF i32])
    have step: "prr_loop e sha t i uniform f_mask =
                  prr_loop e sha t (i + 1) (uniform OR push_bit (nat i) (of_bool ub))
                    (f_mask OR push_bit (nat i) (of_bool nb))"
      by (subst prr_loop.simps)
         (simp only: True if_True rd sum.case Let_def e1 e2 sh oa)
    have "\<exists>u f. prr_loop e sha t (i + 1) (uniform OR push_bit (nat i) (of_bool ub))
                    (f_mask OR push_bit (nat i) (of_bool nb)) = Inr (u, f) \<and>
           (\<forall>n. bit u n \<longleftrightarrow> bit (uniform OR push_bit (nat i) (of_bool ub)) n \<or>
              (n < LENGTH('a) \<and> i + 1 \<le> int n \<and> int n < num_bits e \<and> bit (sha ! n) 0)) \<and>
           (\<forall>n. bit f n \<longleftrightarrow> bit (f_mask OR push_bit (nat i) (of_bool nb)) n \<or>
              (n < LENGTH('a) \<and> i + 1 \<le> int n \<and> int n < num_bits e \<and>
               drop_bit 1 (sha ! n) < t))"
      using "1.IH" [OF True rd refl, unfolded e1, OF sh refl refl refl, unfolded e2, OF sh]
        "1.prems"
      by (simp only: oa)
    then obtain u f where
      r: "prr_loop e sha t (i + 1) (uniform OR push_bit (nat i) (of_bool ub))
            (f_mask OR push_bit (nat i) (of_bool nb)) = Inr (u, f)"
      and u: "\<And>n. bit u n \<longleftrightarrow> bit (uniform OR push_bit (nat i) (of_bool ub)) n \<or>
              (n < LENGTH('a) \<and> i + 1 \<le> int n \<and> int n < num_bits e \<and> bit (sha ! n) 0)"
      and f: "\<And>n. bit f n \<longleftrightarrow> bit (f_mask OR push_bit (nat i) (of_bool nb)) n \<or>
              (n < LENGTH('a) \<and> i + 1 \<le> int n \<and> int n < num_bits e \<and>
               drop_bit 1 (sha ! n) < t)"
      by blast
    have eqi: "\<And>n. (i \<le> int n) = (n = nat i \<or> i + 1 \<le> int n)"
      using "1.prems"(4) by auto
    have "\<forall>n. bit u n \<longleftrightarrow> bit uniform n \<or>
              (n < LENGTH('a) \<and> i \<le> int n \<and> int n < num_bits e \<and> bit (sha ! n) 0)"
      using True "1.prems"(4)
      by (subst eqi) (auto simp: u bit_or_iff bit_push_bool ub_def byte_def)
    moreover have "\<forall>n. bit f n \<longleftrightarrow> bit f_mask n \<or>
              (n < LENGTH('a) \<and> i \<le> int n \<and> int n < num_bits e \<and> drop_bit 1 (sha ! n) < t)"
      using True "1.prems"(4)
      by (subst eqi) (auto simp: f bit_or_iff bit_push_bool nb_def byte_def)
    ultimately show ?thesis
      using step r by simp
  qed
qed

lemma GetPrrMasks_bits:
  fixes e :: "('a::len word, 'r) Encoder"
  assumes "num_bits e \<le> int LENGTH('a)" "LENGTH('a) \<le> 32 \<or> num_bits e < 32"
    and "0 \<le> prob_f e" "prob_f e \<le> 1"
    and "num_bits e \<le> int (length (hmac_func e (client_secret e) value))"
  shows "\<exists>uniform f_mask.
           GetPrrMasks e value = Inr (uniform, f_mask) \<and>
           (\<forall>i. bit uniform i \<longleftrightarrow>
              int i < num_bits e \<and> hmac_func e (client_secret e) value ! i AND 1 = 1) \<and>
           (\<forall>i. bit f_mask i \<longleftrightarrow>
              int i < num_bits e \<and>
              uint (drop_bit 1 (hmac_func e (client_secret e) value ! i)) < \<lfloor>prob_f e * 128\<rfloor>)"
proof -
  let ?d = "hmac_func e (client_secret e) value"
  let ?t = "word_of_int \<lfloor>prob_f e * 128\<rfloor> :: 8 word"
  have nb32: "num_bits e \<le> 32" using assms(1,2) by auto
  obtain u f where
    r: "prr_loop e ?d ?t 0 0 0 = Inr (u, f)"
    and u: "\<And>n. bit u n \<longleftrightarrow> bit (0 :: 'a word) n \<or>
              (n < LENGTH('a) \<and> 0 \<le> int n \<and> int n < num_bits e \<and> bit (?d ! n) 0)"
    and f: "\<And>n. bit f n \<longleftrightarrow> bit (0 :: 'a word) n \<or>
              (n < LENGTH('a) \<and> 0 \<le> int n \<and> int n < num_bits e \<and> drop_bit 1 (?d ! n) < ?t)"
    using prr_loop_bits [OF nb32 assms(2) assms(5), of 0 ?t 0 0] by auto
  have g: "GetPrrMasks e value = Inr (u, f)"
    using nb32 r by (simp add: GetPrrMasks_def to_uint8_prob(1) [OF assms(3,4)])
  have in_bits: "\<And>n. int n < num_bits e \<Longrightarrow> n < LENGTH('a)"
    using assms(1) by auto
  have "\<forall>i. bit u i \<longleftrightarrow> int i < num_bits e \<and> ?d ! i AND 1 = 1"
    using in_bits by (auto simp: u bit0_and1)
  moreover have "\<forall>i. bit f i \<longleftrightarrow>
      int i < num_bits e \<and> uint (drop_bit 1 (?d ! i)) < \<lfloor>prob_f e * 128\<rfloor>"
    using in_bits
    by (auto simp: f word8_less_threshold [OF to_uint8_prob(2,3) [OF assms(3,4)]])
  ultimately show ?thesis using g by blast
qed

subsection \<open>The shape of EncodeInternal and Encode\<close>

lemma EncodeInternal_eq:
  assumes "MakeBloomFilter e value = Inr bloom"
    and "GetPrrMasks e value = Inr (uniform, f_mask)"
    and "prr = (bloom AND NOT f_mask) OR (uniform AND f_mask)"
    and "PMask (irr_rand e) r = (p, r1)"
    and "QMask (irr_rand e) r1 = (q, r2)"
  shows "EncodeInternal e value bloom_out prr_out irr_out r =
           Inr (case p of
                  None \<Rightarrow> (False, Some bloom, Some prr, irr_out, r1)
                | Some p_bits \<Rightarrow>
                   (case q of
                      None \<Rightarrow> (False, Some bloom, Some prr, irr_out, r2)
                    | Some q_bits \<Rightarrow>
                       (True, Some bloom, Some prr,
                        Some ((p_bits AND NOT prr) OR (q_bits AND prr)), r2)))"
  using assms by (simp add: EncodeInternal_def Let_def split: option.splits)

lemma EncodeInternal_Inr_stages:
  assumes "EncodeInternal e value bloom_out prr_out irr_out r = Inr res"
  shows "\<exists>bloom uniform f_mask.
           MakeBloomFilter e value = Inr bloom \<and> GetPrrMasks e value = Inr (uniform, f_mask)"
  using assms by (auto simp: EncodeInternal_def Let_def split: sum.splits)

lemma Encode_eq:
  "Encode e value irr_out r =
     (case EncodeInternal e value None None irr_out r of
        Inl err \<Rightarrow> Inl err
      | Inr (ok, b, p, irr_out', r') \<Rightarrow> Inr (ok, irr_out', r'))"
  by (simp add: Encode_def Let_def split: sum.splits prod.splits)

subsection \<open>What the deterministic stages depend on\<close>

text \<open>
  The two loops read only \<open>num_bits\<close> and \<open>num_hashes\<close> of the encoder; the stages read,
  beyond that, only their digest function and its inputs. The encoders compared may
  draw their masks from sources of different kinds.
\<close>

lemma bloom_loop_fields:
  fixes e1 :: "('a::len word, 'r1) Encoder" and e2 :: "('a word, 'r2) Encoder"
  assumes "num_bits e1 = num_bits e2" "num_hashes e1 = num_hashes e2"
  shows "bloom_loop e1 md5 i bloom = bloom_loop e2 md5 i bloom"
  using assms
proof (induction e1 md5 i bloom rule: bloom_loop.induct)
  case (1 e md5 i bloom)
  have L: "bloom_loop e md5 i bloom =
     (if i < num_hashes e then
        (case byte_at md5 i of
           Inl err \<Rightarrow> Inl err
         | Inr byte \<Rightarrow>
            (case rem_int (uint byte) (num_bits e) of
               Inl err \<Rightarrow> Inl err
             | Inr bit_to_set \<Rightarrow>
                (case shl_int 1 bit_to_set of
                   Inl err \<Rightarrow> Inl err
                 | Inr one_bit \<Rightarrow> bloom_loop e md5 (i + 1) (or_assign bloom one_bit))))
      else Inr bloom)"
    by (rule bloom_loop.simps)
  have R: "bloom_loop e2 md5 i bloom =
     (if i < num_hashes e2 then
        (case byte_at md5 i of
           Inl err \<Rightarrow> Inl err
         | Inr byte \<Rightarrow>
            (case rem_int (uint byte) (num_bits e2) of
               Inl err \<Rightarrow> Inl err
             | Inr bit_to_set \<Rightarrow>
                (case shl_int 1 bit_to_set of
                   Inl err \<Rightarrow> Inl err
                 | Inr one_bit \<Rightarrow> bloom_loop e2 md5 (i + 1) (or_assign bloom one_bit))))
      else Inr bloom)"
    by (rule bloom_loop.simps)
  show ?case
    unfolding L R using "1.IH" "1.prems"
    by (auto split: sum.splits)
qed

lemma prr_loop_fields:
  fixes e1 :: "('a::len word, 'r1) Encoder" and e2 :: "('a word, 'r2) Encoder"
  assumes "num_bits e1 = num_bits e2"
  shows "prr_loop e1 sha t i u f = prr_loop e2 sha t i u f"
  using assms
proof (induction e1 sha t i u f rule: prr_loop.induct)
  case (1 e sha t i u f)
  show ?case
    by (subst prr_loop.simps [of e], subst prr_loop.simps [of e2])
       (use "1.IH" "1.prems" in \<open>auto simp: Let_def split: sum.splits\<close>)
qed

lemma MakeBloomFilter_fields:
  fixes e1 :: "('a::len word, 'r1) Encoder" and e2 :: "('a word, 'r2) Encoder"
  assumes "md5_func e1 = md5_func e2" "cohort e1 = cohort e2"
    and "num_bits e1 = num_bits e2" "num_hashes e1 = num_hashes e2"
  shows "MakeBloomFilter e1 value = MakeBloomFilter e2 value"
  using assms by (simp add: MakeBloomFilter_def hash_input_def bloom_loop_fields [OF assms(3,4)])

lemma GetPrrMasks_fields:
  fixes e1 :: "('a::len word, 'r1) Encoder" and e2 :: "('a word, 'r2) Encoder"
  assumes "hmac_func e1 = hmac_func e2" "client_secret e1 = client_secret e2"
    and "num_bits e1 = num_bits e2" "prob_f e1 = prob_f e2"
  shows "GetPrrMasks e1 value = GetPrrMasks e2 value"
  using assms by (simp add: GetPrrMasks_def prr_loop_fields [OF assms(3)] split: sum.splits)

lemma replace_irr_rand_stages:
  fixes e :: "('a::len word, 'r) Encoder"
  shows "MakeBloomFilter (e\<lparr>irr_rand := rs\<rparr>) value = MakeBloomFilter e value"
    and "GetPrrMasks (e\<lparr>irr_rand := rs\<rparr>) value = GetPrrMasks e value"
  by (rule MakeBloomFilter_fields GetPrrMasks_fields; simp)+

subsection \<open>Bits at and above \<open>num_bits\<close>\<close>

text \<open>
  Whatever the loops return has bit \<open>n\<close> clear for every \<open>n \<ge> num_bits\<close> that was clear on
  entry, when the \<^verbatim>\<open>int\<close> shift is exact in \<^verbatim>\<open>Bits\<close>.
\<close>

lemma bloom_loop_high_bits:
  fixes e :: "('a::len word, 'r) Encoder"
  assumes "1 \<le> num_bits e" "num_bits e \<le> 32" "LENGTH('a) \<le> 32 \<or> num_bits e < 32"
    and "num_bits e \<le> int n"
    and "bloom_loop e md5 i bloom = Inr b" "\<not> bit bloom n"
  shows "\<not> bit b n"
  using assms
proof (induction e md5 i bloom rule: bloom_loop.induct)
  case (1 e md5 i bloom)
  show ?case
  proof (cases "i < num_hashes e")
    case False
    with "1.prems"(5,6) show ?thesis by (simp add: bloom_loop.simps)
  next
    case True
    from "1.prems"(5) True obtain byte bit_to_set one_bit where
      rd: "byte_at md5 i = Inr byte"
      and rm: "rem_int (uint byte) (num_bits e) = Inr bit_to_set"
      and sh: "shl_int 1 bit_to_set = Inr one_bit"
      and rec: "bloom_loop e md5 (i + 1) (or_assign bloom one_bit) = Inr b"
      by (subst (asm) bloom_loop.simps) (auto split: sum.splits)
    have bts: "bit_to_set = uint byte mod num_bits e"
      using rm "1.prems"(1) by (simp add: rem_int_def smod_byte)
    then have rng: "0 \<le> bit_to_set" "bit_to_set < num_bits e"
      using "1.prems"(1) by simp_all
    have ob: "one_bit = push_bit (nat bit_to_set) 1"
      using sh rng "1.prems"(2) by (simp add: shl_int_def)
    have "or_assign bloom one_bit = bloom OR push_bit (nat bit_to_set) 1"
      unfolding or_assign_def ob using rng "1.prems"(2,3)
      by (subst scast_one_bit) auto
    moreover have "nat bit_to_set \<noteq> n"
      using rng "1.prems"(4) by auto
    ultimately have "\<not> bit (or_assign bloom one_bit) n"
      using "1.prems"(6) by (simp add: bit_or_one_bit del: push_bit_of_1)
    then show ?thesis
      using "1.IH" [OF True rd rm sh "1.prems"(1,2,3,4) rec] by simp
  qed
qed

lemma prr_loop_high_bits:
  fixes e :: "('a::len word, 'r) Encoder"
  assumes "num_bits e \<le> 32" "LENGTH('a) \<le> 32 \<or> num_bits e < 32"
    and "num_bits e \<le> int n" "0 \<le> i"
    and "prr_loop e sha t i uniform f_mask = Inr (u, f)" "\<not> bit uniform n" "\<not> bit f_mask n"
  shows "\<not> bit u n \<and> \<not> bit f n"
  using assms
proof (induction e sha t i uniform f_mask rule: prr_loop.induct)
  case (1 e sha t i uniform f_mask)
  show ?case
  proof (cases "i < num_bits e")
    case False
    with "1.prems"(5,6,7) show ?thesis by (simp add: prr_loop.simps)
  next
    case True
    have ir: "0 \<le> i" "i < 32" using True "1.prems"(1,4) by auto
    have i32: "nat i < 32" "nat i < 31 \<or> LENGTH('a) \<le> 32"
      using True "1.prems"(1,2,4) by auto
    define ub where "ub byte = bit byte 0" for byte :: "8 word"
    define nb where "nb byte = (drop_bit 1 byte < t)" for byte :: "8 word"
    have e1: "\<And>byte :: 8 word. byte AND 0x01 = of_bool (ub byte)"
      by (simp add: and_one_of_bool ub_def)
    have e2: "\<And>byte. (if drop_bit 1 byte < t then 1 else 0 :: 8 word) = of_bool (nb byte)"
      by (simp add: nb_def)
    have sh: "\<And>c. shl_int (ucast (of_bool c :: 8 word)) i
                = Inr (push_bit (nat i) (ucast (of_bool c :: 8 word)))"
      using ir by (intro shl_int_ok) simp_all
    have oa: "\<And>c (w :: 'a word). or_assign w (push_bit (nat i) (ucast (of_bool c :: 8 word)))
                = w OR push_bit (nat i) (of_bool c)"
      unfolding or_assign_def by (simp only: scast_bool_bit [OF i32])
    from "1.prems"(5) obtain byte where
      rd: "byte_at sha i = Inr byte"
      and rec: "prr_loop e sha t (i + 1) (uniform OR push_bit (nat i) (of_bool (ub byte)))
                  (f_mask OR push_bit (nat i) (of_bool (nb byte))) = Inr (u, f)"
      by (subst (asm) prr_loop.simps)
         (simp only: True if_True Let_def e1 e2 sh oa sum.case split: sum.splits, auto)
    have ne: "n \<noteq> nat i" using True ir "1.prems"(3) by auto
    have clear: "\<not> bit (uniform OR push_bit (nat i) (of_bool (ub byte))) n"
      "\<not> bit (f_mask OR push_bit (nat i) (of_bool (nb byte))) n"
      using "1.prems"(6,7) ne by (simp_all add: bit_or_iff bit_push_bool)
    have "0 \<le> i + 1" using ir by simp
    from "1.IH" [OF True rd refl, unfolded e1, OF sh refl refl refl, unfolded e2, OF sh,
                 unfolded oa, OF "1.prems"(1,2,3) this rec clear]
    show ?thesis .
  qed
qed

subsection \<open>Validation\<close>

lemma Encoder_init_IsValid:
  "IsValid (Encoder_init params c m s h rs :: ('a::len word, 'r) Encoder) \<longleftrightarrow>
     Params.num_bits params \<le> int LENGTH('a) \<and> Params.num_bits params smod 8 = 0"
  by (simp add: Encoder_init_def IsValid_def kMaxBits_def Let_def)

lemma Encoder_init_num_bits:
  "num_bits (Encoder_init params c m s h rs) = Params.num_bits params"
  by (simp add: Encoder_init_def Let_def)

lemma Encoder_init_deps_IsValid:
  "IsValid (Encoder_init_deps params deps stale_num_bytes stale_is_valid) = stale_is_valid"
  by (simp add: Encoder_init_deps_def IsValid_def)

text \<open>
  With \<^verbatim>\<open>Bits\<close> of at most 32 bits, an encoder that the six-argument constructor reports
  valid passes the assertion of \<^verbatim>\<open>GetPrrMasks\<close>.
\<close>

lemma Encoder_init_valid_le_32:
  fixes e :: "('a::len word, 'r) Encoder"
  assumes "e = Encoder_init params c m s h rs" "IsValid e" "LENGTH('a) \<le> 32"
  shows "num_bits e \<le> 32" and "GetPrrMasks e value \<noteq> Inl AssertionFailed"
proof -
  show le: "num_bits e \<le> 32"
    using assms by (simp add: Encoder_init_IsValid Encoder_init_num_bits)
  obtain t where "to_uint8 (prob_f e * 128) = Inl ConversionOutOfRange \<or>
                  to_uint8 (prob_f e * 128) = Inr t"
    by (cases "to_uint8 (prob_f e * 128)") (auto simp: to_uint8_def Let_def split: if_splits)
  moreover have "prr_loop e sha t i u f \<noteq> Inl AssertionFailed" for sha t i u f
  proof (induction e sha t i u f rule: prr_loop.induct)
    case (1 e sha t i u f)
    show ?case
      by (subst prr_loop.simps)
         (use 1 in \<open>auto simp: Let_def byte_at_def shl_int_def split: sum.splits if_splits\<close>)
  qed
  ultimately show "GetPrrMasks e value \<noteq> Inl AssertionFailed"
    using le by (auto simp: GetPrrMasks_def)
qed

subsection \<open>When the deterministic stages complete\<close>

text \<open>
  Sufficient for both stages to return: \<open>1 \<le> num_bits \<le> 32\<close> with an exact \<^verbatim>\<open>int\<close> shift,
  digests long enough for the probes and the positions, and \<open>prob_f\<close> in \<open>[0, 1]\<close>.
\<close>

lemma deterministic_stages_complete:
  fixes e :: "('a::len word, 'r) Encoder"
  assumes "1 \<le> num_bits e" "num_bits e \<le> 32" "LENGTH('a) \<le> 32 \<or> num_bits e < 32"
    and "num_hashes e \<le> int (length (md5_func e (hash_input e value)))"
    and "0 \<le> prob_f e" "prob_f e \<le> 1"
    and "num_bits e \<le> int (length (hmac_func e (client_secret e) value))"
  shows "(\<exists>bloom. MakeBloomFilter e value = Inr bloom) \<and> (\<exists>m. GetPrrMasks e value = Inr m)"
proof
  show "\<exists>bloom. MakeBloomFilter e value = Inr bloom"
    using bloom_loop_fold [OF assms(1,2,3,4), of 0 0] by (simp add: MakeBloomFilter_def)
  obtain u f where "prr_loop e (hmac_func e (client_secret e) value)
                      (word_of_int \<lfloor>prob_f e * 128\<rfloor>) 0 0 0 = Inr (u, f)"
    using prr_loop_bits [OF assms(2,3,7), of 0 "word_of_int \<lfloor>prob_f e * 128\<rfloor>" 0 0]
    by blast
  then show "\<exists>m. GetPrrMasks e value = Inr m"
    using assms(2) by (simp add: GetPrrMasks_def to_uint8_prob(1) [OF assms(5,6)])
qed

section \<open>The encoder where the \<^verbatim>\<open>int\<close> shift is exact\<close>

text \<open>
  The results of this section hold for every width of \<^verbatim>\<open>Bits\<close>, under the condition that
  no shifted \<^verbatim>\<open>int\<close> changes when it is converted to \<^verbatim>\<open>Bits\<close>: \<^verbatim>\<open>Bits\<close> has at most 32 bits,
  or \<open>num_bits < 32\<close>. They are what the encoder computes on its intended domain.
\<close>

subsection \<open>The Bloom filter\<close>

text \<open>
  For \<open>1 \<le> num_bits \<le> 32\<close> and \<open>num_hashes\<close> probes that the digest has bytes for,
  \<^verbatim>\<open>MakeBloomFilter(value)\<close> returns the bitwise OR, over the probes \<open>i\<close> in
  \<open>[0, num_hashes)\<close>, of the one-bit vectors \<open>1 << (digest[i] mod num_bits)\<close>, where
  \<open>digest\<close> is the digest of the four bytes \<open>[0, 0, 0, cohort mod 256]\<close> followed by the
  bytes of \<open>value\<close>: bit \<open>n\<close> of the result is set exactly when \<open>n\<close> is a position of
  \<^verbatim>\<open>Bits\<close> and some probe addresses it.
\<close>

theorem MakeBloomFilter_or_of_probes:
  fixes e :: "('a::len word, 'r) Encoder"
  assumes "1 \<le> num_bits e" and "num_bits e \<le> 32"
    and "LENGTH('a) \<le> 32 \<or> num_bits e < 32"
    and "digest = md5_func e ([CHR 0x00, CHR 0x00, CHR 0x00, char_of (cohort e mod 256)] @ value)"
    and "num_hashes e \<le> int (length digest)"
  shows "MakeBloomFilter e value = Inr (or_of_probes (num_bits e) (num_hashes e) digest) \<and>
         (\<forall>n. bit (or_of_probes (num_bits e) (num_hashes e) digest :: 'a word) n \<longleftrightarrow>
            n < LENGTH('a) \<and>
            (\<exists>i < nat (num_hashes e). n = nat (uint (digest ! i) mod num_bits e)))"
proof
  have "md5_func e (hash_input e value) = digest"
    using assms(4) by (simp add: hash_input_bytes)
  then show "MakeBloomFilter e value = Inr (or_of_probes (num_bits e) (num_hashes e) digest)"
    using bloom_loop_fold [OF assms(1,2,3), of digest 0 0] assms(5)
    by (simp add: MakeBloomFilter_def or_of_probes_def)
  show "\<forall>n. bit (or_of_probes (num_bits e) (num_hashes e) digest :: 'a word) n \<longleftrightarrow>
            n < LENGTH('a) \<and>
            (\<exists>i < nat (num_hashes e). n = nat (uint (digest ! i) mod num_bits e))"
    by (auto simp: bit_or_of_probes probe_bit_def)
qed

text \<open>
  The example of the specification: with \<open>num_bits = 8\<close>, \<open>num_hashes = 2\<close>, cohort 0 and
  a stub digest that starts \<open>[3, 5]\<close>, \<^verbatim>\<open>MakeBloomFilter("x")\<close> is \<open>0b00101000\<close>.
\<close>

theorem MakeBloomFilter_or_of_probes_example:
  "1 \<le> num_bits (spec_example :: (32 word, nat) Encoder) \<and>
   num_bits (spec_example :: (32 word, nat) Encoder) \<le> 32 \<and>
   IsValid (spec_example :: (32 word, nat) Encoder) \<and>
   num_hashes (spec_example :: (32 word, nat) Encoder) \<le> int (length (md5_bytes 3 5)) \<and>
   MakeBloomFilter (spec_example :: (32 word, nat) Encoder) ''x'' = Inr 0b00101000"
proof -
  let ?e = "spec_example :: (32 word, nat) Encoder"
  have h: "1 \<le> num_bits ?e" "num_bits ?e \<le> 32" "LENGTH(32) \<le> 32 \<or> num_bits ?e < 32"
    "md5_bytes 3 5 = md5_func ?e ([CHR 0x00, CHR 0x00, CHR 0x00, char_of (cohort ?e mod 256)] @ ''x'')"
    "num_hashes ?e \<le> int (length (md5_bytes 3 5))"
    by (simp_all add: example_defs)
  have v: "(or_of_probes (num_bits ?e) (num_hashes ?e) (md5_bytes 3 5) :: 32 word) = 0b00101000"
    by (simp add: example_defs or_of_probes_def probe_bit_def upt_rec [of 0] upt_rec [of "Suc 0"] upt_rec [of 2])
  have valid: "IsValid ?e" by (simp add: example_defs)
  have "MakeBloomFilter ?e ''x'' =
          Inr (or_of_probes (num_bits ?e) (num_hashes ?e) (md5_bytes 3 5))"
    using MakeBloomFilter_or_of_probes [OF h] by (rule conjunct1)
  then have m: "MakeBloomFilter ?e ''x'' = Inr 0b00101000"
    by (simp only: v)
  show ?thesis
    by (intro conjI h(1) h(2) valid h(5) m)
qed

subsection \<open>The PRR masks and the PRR\<close>

text \<open>
  For \<open>num_bits \<le> 32\<close> within the capacity of \<^verbatim>\<open>Bits\<close>, \<open>prob_f\<close> in \<open>[0, 1]\<close>, a keyed
  digest \<open>d\<close> of at least \<open>num_bits\<close> bytes and \<open>threshold = floor(prob_f * 128)\<close>:
  \<^verbatim>\<open>GetPrrMasks\<close> returns masks in which bit \<open>i\<close> of \<open>uniform\<close> is set exactly when
  \<open>i < num_bits\<close> and \<open>d[i] & 1\<close> is 1, and bit \<open>i\<close> of \<open>f_mask\<close> is set exactly when
  \<open>i < num_bits\<close> and \<open>(d[i] >> 1) < threshold\<close>; and whenever the Bloom stage returns
  \<open>bloom\<close>, the PRR that \<^verbatim>\<open>_EncodeInternal\<close> stores is
  \<open>(bloom & ~f_mask) | (uniform & f_mask)\<close>, whose bit \<open>i\<close> is the bit of \<open>uniform\<close> where
  \<open>f_mask\<close> is 1 and the bit of \<open>bloom\<close> where it is 0.
\<close>

theorem GetPrrMasks_and_prr:
  fixes e :: "('a::len word, 'r) Encoder"
  assumes "num_bits e \<le> 32" and "num_bits e \<le> int LENGTH('a)"
    and "LENGTH('a) \<le> 32 \<or> num_bits e < 32"
    and "0 \<le> prob_f e" and "prob_f e \<le> 1"
    and "d = hmac_func e (client_secret e) value" and "num_bits e \<le> int (length d)"
    and "threshold = \<lfloor>prob_f e * 128\<rfloor>"
  shows "\<exists>uniform f_mask.
           GetPrrMasks e value = Inr (uniform, f_mask) \<and>
           (\<forall>i. bit uniform i \<longleftrightarrow> int i < num_bits e \<and> d ! i AND 1 = 1) \<and>
           (\<forall>i. bit f_mask i \<longleftrightarrow> int i < num_bits e \<and> uint (drop_bit 1 (d ! i)) < threshold) \<and>
           (\<forall>bloom. MakeBloomFilter e value = Inr bloom \<longrightarrow>
              (\<exists>ok irr_out' r'.
                 EncodeInternal e value bloom_out prr_out irr_out r =
                   Inr (ok, Some bloom, Some ((bloom AND NOT f_mask) OR (uniform AND f_mask)),
                        irr_out', r')) \<and>
              (\<forall>i. bit ((bloom AND NOT f_mask) OR (uniform AND f_mask)) i =
                     (if bit f_mask i then bit uniform i else bit bloom i)))"
proof -
  obtain uniform f_mask where
    g: "GetPrrMasks e value = Inr (uniform, f_mask)"
    and u: "\<forall>i. bit uniform i \<longleftrightarrow> int i < num_bits e \<and> d ! i AND 1 = 1"
    and f: "\<forall>i. bit f_mask i \<longleftrightarrow> int i < num_bits e \<and> uint (drop_bit 1 (d ! i)) < threshold"
    using GetPrrMasks_bits [of e "value"] assms(2-8) by blast
  obtain p r1 where p: "PMask (irr_rand e) r = (p, r1)" by (cases "PMask (irr_rand e) r")
  obtain q r2 where q: "QMask (irr_rand e) r1 = (q, r2)" by (cases "QMask (irr_rand e) r1")
  have "\<exists>ok irr_out' r'.
          EncodeInternal e value bloom_out prr_out irr_out r =
            Inr (ok, Some bloom, Some ((bloom AND NOT f_mask) OR (uniform AND f_mask)),
                 irr_out', r')"
    if b: "MakeBloomFilter e value = Inr bloom" for bloom
    unfolding EncodeInternal_eq [OF b g refl p q]
    by (auto split: option.splits)
  then show ?thesis
    using g u f bit_select [of _ f_mask uniform] by blast
qed

text \<open>
  An instance: \<open>num_bits = 8\<close>, \<open>prob_f = 1/2\<close> (threshold 64) and keyed-digest bytes
  \<open>[1, 2, 3, 4, 255, 6, 7, 8, ...]\<close> give \<open>uniform = 0x55\<close>, \<open>f_mask = 0xEF\<close> and, with the
  Bloom filter \<open>0x28\<close>, the PRR \<open>0x45\<close>.
\<close>

theorem GetPrrMasks_and_prr_example:
  "num_bits (noisy_example (Some 0xFF) (Some 0) :: (32 word, nat) Encoder) = 8 \<and>
   IsValid (noisy_example (Some 0xFF) (Some 0) :: (32 word, nat) Encoder) \<and>
   prob_f (noisy_example (Some 0xFF) (Some 0) :: (32 word, nat) Encoder) = 1 / 2 \<and>
   MakeBloomFilter (noisy_example (Some 0xFF) (Some 0) :: (32 word, nat) Encoder) ''x'' = Inr 0x28 \<and>
   GetPrrMasks (noisy_example (Some 0xFF) (Some 0) :: (32 word, nat) Encoder) ''x'' = Inr (0x55, 0xEF) \<and>
   (\<exists>ok irr_out' r'.
      EncodeInternal (noisy_example (Some 0xFF) (Some 0) :: (32 word, nat) Encoder) ''x''
        None None None 0 = Inr (ok, Some 0x28, Some 0x45, irr_out', r'))"
proof -
  let ?e = "noisy_example (Some 0xFF) (Some 0) :: (32 word, nat) Encoder"
  let ?d = "sha256_bytes [1, 2, 3, 4, 255, 6, 7, 8] 0"
  have h: "num_bits ?e \<le> 32" "num_bits ?e \<le> int LENGTH(32)"
    "LENGTH(32) \<le> 32 \<or> num_bits ?e < 32" "0 \<le> prob_f ?e" "prob_f ?e \<le> 1"
    "?d = hmac_func ?e (client_secret ?e) ''x''" "num_bits ?e \<le> int (length ?d)"
    "(64 :: int) = \<lfloor>prob_f ?e * 128\<rfloor>"
    by (simp_all add: example_defs)
  have b: "MakeBloomFilter ?e ''x'' = Inr 0x28"
    by (simp add: example_defs run_defs)
  have g: "GetPrrMasks ?e ''x'' = Inr (0x55, 0xEF)"
    by (simp add: example_defs run_defs)
  have c: "num_bits ?e = 8" "IsValid ?e" "prob_f ?e = 1 / 2"
    by (simp_all add: example_defs)
  have v: "((0x28 AND NOT 0xEF) OR (0x55 AND 0xEF) :: 32 word) = 0x45"
    by simp
  from GetPrrMasks_and_prr [OF h, of None None None 0] b g
  have "\<exists>ok irr_out' r'. EncodeInternal ?e ''x'' None None None 0 =
         Inr (ok, Some 0x28, Some ((0x28 AND NOT 0xEF) OR (0x55 AND 0xEF)), irr_out', r')"
    by auto
  then have "\<exists>ok irr_out' r'. EncodeInternal ?e ''x'' None None None 0 =
         Inr (ok, Some 0x28, Some 0x45, irr_out', r')"
    by (simp only: v)
  then show ?thesis
    using c b g by blast
qed

subsection \<open>No bit at or above \<open>num_bits\<close>\<close>

text \<open>
  For \<open>1 \<le> num_bits \<le> 32\<close> and every position \<open>n \<ge> num_bits\<close>: bit \<open>n\<close> is zero in the
  Bloom filter that \<^verbatim>\<open>MakeBloomFilter\<close> returns, in the \<open>uniform\<close> and \<open>f_mask\<close> that
  \<^verbatim>\<open>GetPrrMasks\<close> returns, in the Bloom filter and the PRR that \<^verbatim>\<open>_EncodeInternal\<close> stores
  and, when bit \<open>n\<close> of the drawn \<open>p_bits\<close> and \<open>q_bits\<close> is zero, in the report.
\<close>

theorem pipeline_bits_below_num_bits:
  fixes e :: "('a::len word, 'r) Encoder"
  assumes "1 \<le> num_bits e" and "num_bits e \<le> 32"
    and "LENGTH('a) \<le> 32 \<or> num_bits e < 32"
    and "num_bits e \<le> int n"
  shows "(\<forall>bloom. MakeBloomFilter e value = Inr bloom \<longrightarrow> \<not> bit bloom n) \<and>
         (\<forall>uniform f_mask. GetPrrMasks e value = Inr (uniform, f_mask) \<longrightarrow>
            \<not> bit uniform n \<and> \<not> bit f_mask n) \<and>
         (\<forall>ok bloom_out' prr_out' irr_out' r'.
            EncodeInternal e value bloom_out prr_out irr_out r
              = Inr (ok, bloom_out', prr_out', irr_out', r') \<longrightarrow>
            (\<exists>bloom prr. bloom_out' = Some bloom \<and> prr_out' = Some prr \<and>
                          \<not> bit bloom n \<and> \<not> bit prr n) \<and>
            (\<forall>p_bits q_bits r1.
               PMask (irr_rand e) r = (Some p_bits, r1) \<and>
               QMask (irr_rand e) r1 = (Some q_bits, r') \<and>
               \<not> bit p_bits n \<and> \<not> bit q_bits n \<longrightarrow>
               (\<exists>irr. ok \<and> irr_out' = Some irr \<and> \<not> bit irr n)))"
proof -
  have bl: "\<not> bit bloom n" if "MakeBloomFilter e value = Inr bloom" for bloom
    using that bloom_loop_high_bits [OF assms, of _ 0 0 bloom]
    by (simp add: MakeBloomFilter_def)
  have pm: "\<not> bit uniform n \<and> \<not> bit f_mask n"
    if "GetPrrMasks e value = Inr (uniform, f_mask)" for uniform f_mask
    using that prr_loop_high_bits [OF assms(2,3,4), of 0 _ _ 0 0 uniform f_mask]
    by (auto simp: GetPrrMasks_def split: if_splits sum.splits)
  have ei: "(\<exists>bloom prr. bloom_out' = Some bloom \<and> prr_out' = Some prr \<and>
                          \<not> bit bloom n \<and> \<not> bit prr n) \<and>
            (\<forall>p_bits q_bits r1.
               PMask (irr_rand e) r = (Some p_bits, r1) \<and>
               QMask (irr_rand e) r1 = (Some q_bits, r') \<and>
               \<not> bit p_bits n \<and> \<not> bit q_bits n \<longrightarrow>
               (\<exists>irr. ok \<and> irr_out' = Some irr \<and> \<not> bit irr n))"
    if ret: "EncodeInternal e value bloom_out prr_out irr_out r
               = Inr (ok, bloom_out', prr_out', irr_out', r')"
    for ok bloom_out' prr_out' irr_out' r'
  proof -
    obtain bloom uniform f_mask where
      b: "MakeBloomFilter e value = Inr bloom" and g: "GetPrrMasks e value = Inr (uniform, f_mask)"
      using EncodeInternal_Inr_stages [OF ret] by auto
    obtain p r1 where p: "PMask (irr_rand e) r = (p, r1)" by (cases "PMask (irr_rand e) r")
    obtain q r2 where q: "QMask (irr_rand e) r1 = (q, r2)" by (cases "QMask (irr_rand e) r1")
    define prr where "prr = (bloom AND NOT f_mask) OR (uniform AND f_mask)"
    have prr_n: "\<not> bit prr n"
      using bl [OF b] pm [OF g] by (simp add: prr_def bit_select)
    note eq = ret [unfolded EncodeInternal_eq [OF b g prr_def p q]]
    have "bloom_out' = Some bloom" "prr_out' = Some prr"
      using eq by (auto split: option.splits)
    moreover have "\<exists>irr. ok \<and> irr_out' = Some irr \<and> \<not> bit irr n"
      if "PMask (irr_rand e) r = (Some p_bits, s1)" "QMask (irr_rand e) s1 = (Some q_bits, r')"
        "\<not> bit p_bits n" "\<not> bit q_bits n" for p_bits q_bits s1
      using eq that p q prr_n by (auto simp: bit_select)
    ultimately show ?thesis
      using bl [OF b] prr_n by blast
  qed
  show ?thesis
    using bl pm ei by blast
qed

text \<open>An instance with \<open>num_bits = 8\<close> and position 8.\<close>

theorem pipeline_bits_below_num_bits_example:
  "num_bits (noisy_example (Some 0xFF) (Some 0) :: (32 word, nat) Encoder) = 8 \<and>
   MakeBloomFilter (noisy_example (Some 0xFF) (Some 0) :: (32 word, nat) Encoder) ''x''
     = Inr 0x28 \<and>
   GetPrrMasks (noisy_example (Some 0xFF) (Some 0) :: (32 word, nat) Encoder) ''x''
     = Inr (0x55, 0xEF) \<and>
   EncodeInternal (noisy_example (Some 0xFF) (Some 0) :: (32 word, nat) Encoder) ''x''
     None None None 0 = Inr (True, Some 0x28, Some 0x45, Some 0xBA, 2) \<and>
   \<not> bit (0x28 :: 32 word) 8 \<and> \<not> bit (0x55 :: 32 word) 8 \<and> \<not> bit (0xEF :: 32 word) 8 \<and>
   (\<exists>prr. Some (0x45 :: 32 word) = Some prr \<and> \<not> bit prr 8)"
proof -
  let ?e = "noisy_example (Some 0xFF) (Some 0) :: (32 word, nat) Encoder"
  have h: "1 \<le> num_bits ?e" "num_bits ?e \<le> 32" "LENGTH(32) \<le> 32 \<or> num_bits ?e < 32"
    "num_bits ?e \<le> int 8"
    by (simp_all add: example_defs)
  have nb: "num_bits ?e = 8" by (simp add: example_defs)
  have b: "MakeBloomFilter ?e ''x'' = Inr 0x28"
    by (simp add: example_defs run_defs)
  have g: "GetPrrMasks ?e ''x'' = Inr (0x55, 0xEF)"
    by (simp add: example_defs run_defs)
  have r: "EncodeInternal ?e ''x'' None None None 0
             = Inr (True, Some 0x28, Some 0x45, Some 0xBA, 2)"
    by (simp add: example_defs run_defs)
  note t = pipeline_bits_below_num_bits [OF h, of "''x''" None None None 0]
  from t b have 1: "\<not> bit (0x28 :: 32 word) 8" by blast
  from t g have 2: "\<not> bit (0x55 :: 32 word) 8" "\<not> bit (0xEF :: 32 word) 8" by blast+
  from t r have 3: "\<exists>prr. Some (0x45 :: 32 word) = Some prr \<and> \<not> bit prr 8" by blast
  from nb b g r 1 2 3 show ?thesis by (intro conjI)
qed

subsection \<open>The flag that Encode returns\<close>

text \<open>
  Let \<open>p\<close> be what \<^verbatim>\<open>PMask\<close> returns in the state \<open>r\<close> of the mask source and \<open>q\<close> what
  \<^verbatim>\<open>QMask\<close> returns in the state after it. \<^verbatim>\<open>Encode(value)\<close> returns whenever the Bloom
  filter and PRR stages complete, and every call that returns satisfies: it returns
  \<^verbatim>\<open>false\<close> if and only if a mask draw fails; when \<^verbatim>\<open>PMask\<close> fails the mask source is left
  in the state after that one draw and the outcome is the same whatever \<^verbatim>\<open>QMask\<close> is, so
  \<^verbatim>\<open>QMask\<close> is not invoked; when \<^verbatim>\<open>PMask\<close> succeeds \<^verbatim>\<open>QMask\<close> is drawn; and a call that
  returns \<^verbatim>\<open>false\<close> leaves \<^verbatim>\<open>*irr_out\<close> as it was, no mask being substituted.
\<close>

theorem Encode_fails_iff_draw_fails:
  fixes e :: "('a::len word, 'r) Encoder"
  assumes "PMask (irr_rand e) r = (p, r1)" and "QMask (irr_rand e) r1 = (q, r2)"
  shows "((\<exists>bloom. MakeBloomFilter e value = Inr bloom) \<and> (\<exists>m. GetPrrMasks e value = Inr m) \<longrightarrow>
            (\<exists>ok irr_out' r'. Encode e value irr_out r = Inr (ok, irr_out', r'))) \<and>
         (\<forall>ok irr_out' r'. Encode e value irr_out r = Inr (ok, irr_out', r') \<longrightarrow>
            (\<not> ok \<longleftrightarrow> p = None \<or> q = None) \<and>
            (p = None \<longrightarrow> r' = r1 \<and>
               (\<forall>qm. Encode (e\<lparr>irr_rand := (irr_rand e)\<lparr>QMask := qm\<rparr>\<rparr>) value irr_out r
                       = Inr (False, irr_out', r1))) \<and>
            (p \<noteq> None \<longrightarrow> r' = r2) \<and>
            (\<not> ok \<longrightarrow> irr_out' = irr_out))"
proof (intro conjI allI impI)
  assume "(\<exists>bloom. MakeBloomFilter e value = Inr bloom) \<and> (\<exists>m. GetPrrMasks e value = Inr m)"
  then obtain bloom uniform f_mask where
    "MakeBloomFilter e value = Inr bloom" "GetPrrMasks e value = Inr (uniform, f_mask)"
    by (cases "GetPrrMasks e value") auto
  then show "\<exists>ok irr_out' r'. Encode e value irr_out r = Inr (ok, irr_out', r')"
    unfolding Encode_eq
    by (auto simp: EncodeInternal_eq [OF _ _ refl assms] split: option.splits)
next
  fix ok irr_out' r'
  assume ret: "Encode e value irr_out r = Inr (ok, irr_out', r')"
  then obtain res where ei: "EncodeInternal e value None None irr_out r = Inr res"
    unfolding Encode_eq by (auto split: sum.splits)
  obtain bloom uniform f_mask where
    b: "MakeBloomFilter e value = Inr bloom" and g: "GetPrrMasks e value = Inr (uniform, f_mask)"
    using EncodeInternal_Inr_stages [OF ei] by auto
  note eq = ret [unfolded Encode_eq EncodeInternal_eq [OF b g refl assms]]
  show "(\<not> ok) = (p = None \<or> q = None)"
    using eq by (auto split: option.splits)
  show "r' = r2" if "p \<noteq> None"
    using eq that by (auto split: option.splits)
  show "irr_out' = irr_out" if "\<not> ok"
    using eq that by (auto split: option.splits)
  show "r' = r1" if "p = None"
    using eq that by simp
  show "Encode (e\<lparr>irr_rand := (irr_rand e)\<lparr>QMask := qm\<rparr>\<rparr>) value irr_out r
          = Inr (False, irr_out', r1)" if pn: "p = None" for qm
  proof -
    let ?e' = "e\<lparr>irr_rand := (irr_rand e)\<lparr>QMask := qm\<rparr>\<rparr>"
    have b': "MakeBloomFilter ?e' value = Inr bloom"
      and g': "GetPrrMasks ?e' value = Inr (uniform, f_mask)"
      using b g by (simp_all add: replace_irr_rand_stages)
    have p': "PMask (irr_rand ?e') r = (p, r1)"
      using assms(1) by simp
    obtain q' r2' where q': "QMask (irr_rand ?e') r1 = (q', r2')"
      by (cases "QMask (irr_rand ?e') r1")
    show ?thesis
      using eq pn unfolding Encode_eq EncodeInternal_eq [OF b' g' refl p' q']
      by simp
  qed
qed

text \<open>
  Two instances: a source whose \<^verbatim>\<open>PMask\<close> fails (one draw made, \<^verbatim>\<open>*irr_out\<close> still 7) and
  a source whose draws both succeed.
\<close>

theorem Encode_fails_iff_draw_fails_example:
  "PMask (irr_rand (noisy_example None (Some 0) :: (32 word, nat) Encoder)) 0 = (None, 1) \<and>
   QMask (irr_rand (noisy_example None (Some 0) :: (32 word, nat) Encoder)) 1 = (Some 0, 2) \<and>
   Encode (noisy_example None (Some 0) :: (32 word, nat) Encoder) ''x'' (Some 7) 0
     = Inr (False, Some 7, 1) \<and>
   PMask (irr_rand (noisy_example (Some 0xFF) (Some 0) :: (32 word, nat) Encoder)) 0
     = (Some 0xFF, 1) \<and>
   QMask (irr_rand (noisy_example (Some 0xFF) (Some 0) :: (32 word, nat) Encoder)) 1
     = (Some 0, 2) \<and>
   (\<exists>irr. Encode (noisy_example (Some 0xFF) (Some 0) :: (32 word, nat) Encoder) ''x'' (Some 7) 0
     = Inr (True, irr, 2))"
proof -
  let ?f = "noisy_example None (Some 0) :: (32 word, nat) Encoder"
  let ?s = "noisy_example (Some 0xFF) (Some 0) :: (32 word, nat) Encoder"
  have pf: "PMask (irr_rand ?f) 0 = (None, 1)" and qf: "QMask (irr_rand ?f) 1 = (Some 0, 2)"
    and ps: "PMask (irr_rand ?s) 0 = (Some 0xFF, 1)" and qs: "QMask (irr_rand ?s) 1 = (Some 0, 2)"
    by (simp_all add: example_defs)
  have stf: "(\<exists>bloom. MakeBloomFilter ?f ''x'' = Inr bloom) \<and> (\<exists>m. GetPrrMasks ?f ''x'' = Inr m)"
    and sts: "(\<exists>bloom. MakeBloomFilter ?s ''x'' = Inr bloom) \<and> (\<exists>m. GetPrrMasks ?s ''x'' = Inr m)"
    by (simp_all add: example_defs run_defs)
  note tf = Encode_fails_iff_draw_fails [OF pf qf, of "''x''" "Some 7"]
  note ts = Encode_fails_iff_draw_fails [OF ps qs, of "''x''" "Some 7"]
  from tf stf obtain ok irr r' where rf: "Encode ?f ''x'' (Some 7) 0 = Inr (ok, irr, r')"
    by blast
  with tf have "\<not> ok" "r' = 1" "irr = Some 7" by blast+
  with rf have ef: "Encode ?f ''x'' (Some 7) 0 = Inr (False, Some 7, 1)" by simp
  from ts sts obtain ok irr r' where rs: "Encode ?s ''x'' (Some 7) 0 = Inr (ok, irr, r')"
    by blast
  with ts have "ok" "r' = 2" by blast+
  with rs have es: "\<exists>irr. Encode ?s ''x'' (Some 7) 0 = Inr (True, irr, 2)" by simp
  from pf qf ef ps qs es show ?thesis by (intro conjI)
qed

text \<open>
  On parameters for which the deterministic stages complete, \<^verbatim>\<open>Encode\<close> returns, and the
  flag it returns says exactly whether both draws succeeded.
\<close>

lemma Encode_on_checked_parameters:
  fixes e :: "('a::len word, 'r) Encoder"
  assumes "1 \<le> num_bits e" "num_bits e \<le> 32" "LENGTH('a) \<le> 32 \<or> num_bits e < 32"
    and "num_hashes e \<le> int (length (md5_func e (hash_input e value)))"
    and "0 \<le> prob_f e" "prob_f e \<le> 1"
    and "num_bits e \<le> int (length (hmac_func e (client_secret e) value))"
    and "PMask (irr_rand e) r = (p, r1)" and "QMask (irr_rand e) r1 = (q, r2)"
  shows "\<exists>irr_out'.
           Encode e value irr_out r
             = Inr (p \<noteq> None \<and> q \<noteq> None, irr_out', if p = None then r1 else r2) \<and>
           (p = None \<or> q = None \<longrightarrow> irr_out' = irr_out) \<and>
           (p \<noteq> None \<and> q \<noteq> None \<longrightarrow> irr_out' \<noteq> None)"
proof -
  obtain bloom uniform f_mask where
    b: "MakeBloomFilter e value = Inr bloom" and g: "GetPrrMasks e value = Inr (uniform, f_mask)"
    using deterministic_stages_complete [OF assms(1-7)] by auto
  show ?thesis
    unfolding Encode_eq EncodeInternal_eq [OF b g refl assms(8,9)]
    by (auto split: option.splits)
qed

section \<open>The claims\<close>

subsection \<open>C1: what MakeBloomFilter returns\<close>

text \<open>
  C1 fails when \<^verbatim>\<open>Bits\<close> is wider than \<^verbatim>\<open>int\<close>. With 64-bit \<^verbatim>\<open>Bits\<close>, take the valid
  encoder with \<open>num_bits = 32\<close>, \<open>num_hashes = 1\<close>, cohort 0 and a digest whose first byte
  is 31. The probe computes \<^verbatim>\<open>1 << 31\<close>, a negative \<^verbatim>\<open>int\<close>, and \<^verbatim>\<open>bloom |= ...\<close> converts
  it by value: \<^verbatim>\<open>MakeBloomFilter("x")\<close> returns a filter with bits 31 to 63 set, where
  the bitwise OR of the one-bit vectors \<open>1 << (digest[i] mod num_bits)\<close> that C1 states
  has bit 31 only.
\<close>

theorem MakeBloomFilter_probe_31_sign_extends:
  "IsValid (top_bit_example :: (64 word, nat) Encoder) \<and>
   num_bits (top_bit_example :: (64 word, nat) Encoder) = 32 \<and>
   num_hashes (top_bit_example :: (64 word, nat) Encoder) = 1 \<and>
   md5_func (top_bit_example :: (64 word, nat) Encoder)
     ([CHR 0x00, CHR 0x00, CHR 0x00, CHR 0x00] @ ''x'') = md5_bytes 31 0 \<and>
   MakeBloomFilter (top_bit_example :: (64 word, nat) Encoder) ''x'' = Inr 0xFFFFFFFF80000000 \<and>
   (or_of_probes 32 1 (md5_bytes 31 0) :: 64 word) = 0x80000000"
  by (simp add: example_defs run_defs or_of_probes_def probe_bit_def upt_rec [of 0] upt_rec [of "Suc 0"])

subsection \<open>C2: the PRR masks and the PRR\<close>

text \<open>
  C2 fails when \<^verbatim>\<open>Bits\<close> is wider than \<^verbatim>\<open>int\<close>. With 64-bit \<^verbatim>\<open>Bits\<close> and \<open>num_bits = 32\<close>, a
  valid encoder with \<open>num_bits \<le> 32\<close>: when byte 31 of the keyed digest is odd,
  \<^verbatim>\<open>u_bit << 31\<close> is a negative \<^verbatim>\<open>int\<close> and \<^verbatim>\<open>uniform |= ...\<close> sets bits 31 to 63, among
  them bit 40, outside \<open>[0, num_bits)\<close>, where C2 states that no other bit is set.
\<close>

theorem GetPrrMasks_bit_31_sign_extends:
  "IsValid (top_bit_example :: (64 word, nat) Encoder) \<and>
   num_bits (top_bit_example :: (64 word, nat) Encoder) = 32 \<and>
   GetPrrMasks (top_bit_example :: (64 word, nat) Encoder) ''x'' = Inr (0xFFFFFFFF80000000, 0) \<and>
   bit (0xFFFFFFFF80000000 :: 64 word) 40"
proof (intro conjI)
  show "IsValid (top_bit_example :: (64 word, nat) Encoder)"
    by (simp add: example_defs)
  show "num_bits (top_bit_example :: (64 word, nat) Encoder) = 32"
    by (simp add: example_defs)
  show "GetPrrMasks (top_bit_example :: (64 word, nat) Encoder) ''x''
          = Inr (0xFFFFFFFF80000000, 0)"
    by code_simp
  show "bit (0xFFFFFFFF80000000 :: 64 word) 40"
    by (simp add: bit_iff_odd drop_bit_eq_div)
qed

subsection \<open>C3: the report\<close>

text \<open>
  C3. For every PRR \<open>prr\<close> that the deterministic stages produce and every pair of masks
  \<open>p_bits\<close>, \<open>q_bits\<close> that \<^verbatim>\<open>PMask\<close> and \<^verbatim>\<open>QMask\<close> return, \<^verbatim>\<open>_EncodeInternal\<close> returns
  \<^verbatim>\<open>true\<close> and stores the report \<open>(p_bits & ~prr) | (q_bits & prr)\<close>: each position
  where \<open>prr\<close> is 0 takes the bit of \<open>p_bits\<close>, each position where it is 1 the bit of
  \<open>q_bits\<close>.
\<close>

theorem EncodeInternal_irr:
  fixes e :: "('a::len word, 'r) Encoder"
  assumes "MakeBloomFilter e value = Inr bloom"
    and "GetPrrMasks e value = Inr (uniform, f_mask)"
    and "prr = (bloom AND NOT f_mask) OR (uniform AND f_mask)"
    and "PMask (irr_rand e) r = (Some p_bits, r1)"
    and "QMask (irr_rand e) r1 = (Some q_bits, r2)"
  shows "EncodeInternal e value bloom_out prr_out irr_out r =
           Inr (True, Some bloom, Some prr, Some ((p_bits AND NOT prr) OR (q_bits AND prr)), r2) \<and>
         (\<forall>n. bit ((p_bits AND NOT prr) OR (q_bits AND prr)) n =
                (if bit prr n then bit q_bits n else bit p_bits n))"
  using EncodeInternal_eq [OF assms, of bloom_out prr_out irr_out] bit_select [of p_bits prr q_bits]
  by simp

text \<open>
  The example of the specification: with \<open>prob_f = 0\<close> the PRR is the Bloom filter
  \<open>0b00101000\<close>, and \<open>PMask() = 0xFF\<close>, \<open>QMask() = 0x00\<close> give the report \<open>0b11010111\<close>.
\<close>

theorem EncodeInternal_irr_witness:
  "MakeBloomFilter (spec_example :: (32 word, nat) Encoder) ''x'' = Inr 0x28 \<and>
   GetPrrMasks (spec_example :: (32 word, nat) Encoder) ''x'' = Inr (0x55, 0) \<and>
   PMask (irr_rand (spec_example :: (32 word, nat) Encoder)) 0 = (Some 0xFF, 1) \<and>
   QMask (irr_rand (spec_example :: (32 word, nat) Encoder)) 1 = (Some 0x00, 2) \<and>
   EncodeInternal (spec_example :: (32 word, nat) Encoder) ''x'' None None None 0 =
     Inr (True, Some 0x28, Some 0x28, Some 0b11010111, 2)"
proof -
  let ?e = "spec_example :: (32 word, nat) Encoder"
  have b: "MakeBloomFilter ?e ''x'' = Inr 0x28"
    by (simp add: example_defs run_defs)
  have g: "GetPrrMasks ?e ''x'' = Inr (0x55, 0)"
    by (simp add: example_defs run_defs)
  have prr: "(0x28 :: 32 word) = (0x28 AND NOT 0) OR (0x55 AND 0)"
    by simp
  have p: "PMask (irr_rand ?e) 0 = (Some 0xFF, 1)"
    by (simp add: example_defs)
  have q: "QMask (irr_rand ?e) 1 = (Some 0x00, 2)"
    by (simp add: example_defs)
  have "EncodeInternal ?e ''x'' None None None 0 =
          Inr (True, Some 0x28, Some 0x28, Some ((0xFF AND NOT 0x28) OR (0x00 AND 0x28)), 2)"
    using EncodeInternal_irr [OF b g prr p q, of None None None] by (rule conjunct1)
  then have "EncodeInternal ?e ''x'' None None None 0 =
          Inr (True, Some 0x28, Some 0x28, Some 0b11010111, 2)"
    by simp
  with b g p q show ?thesis by (intro conjI)
qed

subsection \<open>C4: when Encode returns false\<close>

text \<open>
  C4 fails on the valid encoder with \<open>num_bits = 0\<close> and \<open>num_hashes = 1\<close>: both draws
  would succeed, so C4 states that \<^verbatim>\<open>Encode\<close> returns \<^verbatim>\<open>true\<close> and that the deterministic
  stages cause no failure, yet the Bloom filter stage divides by zero before any draw
  and \<^verbatim>\<open>Encode\<close> returns no flag.
\<close>

theorem Encode_divides_by_zero_before_draws:
  "IsValid (zero_bits_example :: (32 word, nat) Encoder) \<and>
   PMask (irr_rand (zero_bits_example :: (32 word, nat) Encoder)) 0 = (Some 0xFF, 1) \<and>
   QMask (irr_rand (zero_bits_example :: (32 word, nat) Encoder)) 1 = (Some 0x00, 2) \<and>
   Encode (zero_bits_example :: (32 word, nat) Encoder) ''x'' None 0 = Inl DivisionByZero"
  by (simp add: example_defs run_defs)

subsection \<open>C5: validation at construction\<close>

text \<open>
  C5 fails for \<^verbatim>\<open>Encoder(params, deps)\<close>, which validates nothing: \<^verbatim>\<open>IsValid()\<close> returns
  what the storage of \<^verbatim>\<open>is_valid_\<close> held. With \<open>num_bits = 100\<close>, larger than 32-bit
  \<^verbatim>\<open>Bits\<close> and no multiple of 8, it can return \<^verbatim>\<open>true\<close>; with \<open>num_bits = 8\<close> it can
  return \<^verbatim>\<open>false\<close>. (The six-argument constructor validates, see
  \<open>Encoder_init_IsValid\<close>.)
\<close>

theorem Encoder_init_deps_not_validated:
  "IsValid (unchecked_example 100 True :: (32 word, nat) Encoder) \<and>
   num_bits (unchecked_example 100 True :: (32 word, nat) Encoder) = 100 \<and>
   num_bits (unchecked_example 100 True :: (32 word, nat) Encoder) > kMaxBits TYPE(32) \<and>
   num_bits (unchecked_example 100 True :: (32 word, nat) Encoder) smod 8 \<noteq> 0 \<and>
   \<not> IsValid (unchecked_example 8 False :: (32 word, nat) Encoder) \<and>
   num_bits (unchecked_example 8 False :: (32 word, nat) Encoder) \<le> kMaxBits TYPE(32) \<and>
   num_bits (unchecked_example 8 False :: (32 word, nat) Encoder) smod 8 = 0"
  by (simp add: example_defs)

subsection \<open>C6: validity and the assertion of GetPrrMasks\<close>

text \<open>
  C6 fails: validation compares \<open>num_bits\<close> with the capacity of \<^verbatim>\<open>Bits\<close>, not with 32.
  With 64-bit \<^verbatim>\<open>Bits\<close>, \<open>num_bits = 40\<close> is valid and \<^verbatim>\<open>assert(num_bits_ <= 32)\<close> fails in
  \<^verbatim>\<open>GetPrrMasks\<close>, so \<^verbatim>\<open>Encode\<close> aborts. With \<^verbatim>\<open>Bits\<close> of any width, an encoder built by
  \<^verbatim>\<open>Encoder(params, deps)\<close> can report valid with \<open>num_bits = 40\<close>.
\<close>

theorem valid_encoder_fails_assertion:
  "IsValid (forty_bits_example :: (64 word, nat) Encoder) \<and>
   num_bits (forty_bits_example :: (64 word, nat) Encoder) = 40 \<and>
   GetPrrMasks (forty_bits_example :: (64 word, nat) Encoder) ''x'' = Inl AssertionFailed \<and>
   Encode (forty_bits_example :: (64 word, nat) Encoder) ''x'' None 0 = Inl AssertionFailed \<and>
   IsValid (unchecked_example 40 True :: (32 word, nat) Encoder) \<and>
   num_bits (unchecked_example 40 True :: (32 word, nat) Encoder) = 40 \<and>
   GetPrrMasks (unchecked_example 40 True :: (32 word, nat) Encoder) ''x'' = Inl AssertionFailed"
  by (simp add: example_defs run_defs)

subsection \<open>C7: no bit at or above \<open>num_bits\<close>\<close>

text \<open>
  C7 fails when \<^verbatim>\<open>Bits\<close> is wider than \<^verbatim>\<open>int\<close>. With 64-bit \<^verbatim>\<open>Bits\<close> and \<open>num_bits = 32\<close>, a
  valid encoder with \<open>1 \<le> num_bits \<le> 32\<close>: a probe on bit 31 makes \<^verbatim>\<open>MakeBloomFilter\<close>
  return a filter with bit 32 set, a position at or above \<open>num_bits\<close>.
\<close>

theorem MakeBloomFilter_sets_bit_above_num_bits:
  "IsValid (top_bit_example :: (64 word, nat) Encoder) \<and>
   1 \<le> num_bits (top_bit_example :: (64 word, nat) Encoder) \<and>
   num_bits (top_bit_example :: (64 word, nat) Encoder) \<le> 32 \<and>
   MakeBloomFilter (top_bit_example :: (64 word, nat) Encoder) ''x'' = Inr 0xFFFFFFFF80000000 \<and>
   num_bits (top_bit_example :: (64 word, nat) Encoder) \<le> int 32 \<and>
   bit (0xFFFFFFFF80000000 :: 64 word) 32"
  by (simp add: example_defs run_defs bit_iff_odd drop_bit_eq_div)

subsection \<open>C8: the deterministic stages are functions of their inputs\<close>

text \<open>
  C8, as amended. Two encoders with the same digest function, the same cohort and the
  same \<open>num_bits\<close> and \<open>num_hashes\<close> return the same Bloom filter for the same value;
  two encoders with the same keyed digest function, secret, \<open>num_bits\<close> and \<open>prob_f\<close>
  return the same \<open>(uniform, f_mask)\<close> for the same value; and when a call of
  \<^verbatim>\<open>_EncodeInternal\<close> returns, every call on the same encoder and value returns and
  stores the same Bloom filter and the same PRR, whatever the mask source is, whatever
  state it is in and whatever the output cells held.
\<close>

theorem deterministic_stages:
  fixes e1 :: "('a::len word, 'r1) Encoder" and e2 :: "('a word, 'r2) Encoder"
    and e :: "('a word, 'r) Encoder"
  shows "(md5_func e1 = md5_func e2 \<and> cohort e1 = cohort e2 \<and>
          num_bits e1 = num_bits e2 \<and> num_hashes e1 = num_hashes e2 \<longrightarrow>
            MakeBloomFilter e1 value = MakeBloomFilter e2 value) \<and>
         (hmac_func e1 = hmac_func e2 \<and> client_secret e1 = client_secret e2 \<and>
          num_bits e1 = num_bits e2 \<and> prob_f e1 = prob_f e2 \<longrightarrow>
            GetPrrMasks e1 value = GetPrrMasks e2 value) \<and>
         (\<forall>ok bloom_out' prr_out' irr_out' r'.
            EncodeInternal e value bloom_out prr_out irr_out r
              = Inr (ok, bloom_out', prr_out', irr_out', r') \<longrightarrow>
            prr_out' \<noteq> None \<and>
            (\<forall>rs r0 b p c. \<exists>ok2 c' r2.
               EncodeInternal (e\<lparr>irr_rand := rs\<rparr>) value b p c r0
                 = Inr (ok2, bloom_out', prr_out', c', r2)))"
proof (intro conjI allI impI)
  assume "md5_func e1 = md5_func e2 \<and> cohort e1 = cohort e2 \<and>
          num_bits e1 = num_bits e2 \<and> num_hashes e1 = num_hashes e2"
  then show "MakeBloomFilter e1 value = MakeBloomFilter e2 value"
    by (intro MakeBloomFilter_fields) simp_all
next
  assume "hmac_func e1 = hmac_func e2 \<and> client_secret e1 = client_secret e2 \<and>
          num_bits e1 = num_bits e2 \<and> prob_f e1 = prob_f e2"
  then show "GetPrrMasks e1 value = GetPrrMasks e2 value"
    by (intro GetPrrMasks_fields) simp_all
next
  fix ok bloom_out' prr_out' irr_out' r'
  assume ret: "EncodeInternal e value bloom_out prr_out irr_out r
                 = Inr (ok, bloom_out', prr_out', irr_out', r')"
  obtain bloom uniform f_mask where
    b: "MakeBloomFilter e value = Inr bloom" and g: "GetPrrMasks e value = Inr (uniform, f_mask)"
    using EncodeInternal_Inr_stages [OF ret] by auto
  obtain p r1 where p: "PMask (irr_rand e) r = (p, r1)" by (cases "PMask (irr_rand e) r")
  obtain q r2 where q: "QMask (irr_rand e) r1 = (q, r2)" by (cases "QMask (irr_rand e) r1")
  have cells: "bloom_out' = Some bloom"
    "prr_out' = Some ((bloom AND NOT f_mask) OR (uniform AND f_mask))"
    using ret unfolding EncodeInternal_eq [OF b g refl p q]
    by (auto split: option.splits)
  then show "prr_out' \<noteq> None" by simp
  fix rs r0 b' p' c
  let ?e' = "e\<lparr>irr_rand := rs\<rparr>"
  have b2: "MakeBloomFilter ?e' value = Inr bloom"
    and g2: "GetPrrMasks ?e' value = Inr (uniform, f_mask)"
    using b g by (simp_all add: replace_irr_rand_stages)
  obtain p2 s1 where p2: "PMask (irr_rand ?e') r0 = (p2, s1)"
    by (cases "PMask (irr_rand ?e') r0")
  obtain q2 s2 where q2: "QMask (irr_rand ?e') s1 = (q2, s2)"
    by (cases "QMask (irr_rand ?e') s1")
  show "\<exists>ok2 c' r2. EncodeInternal ?e' value b' p' c r0
          = Inr (ok2, bloom_out', prr_out', c', r2)"
    unfolding EncodeInternal_eq [OF b2 g2 refl p2 q2] cells
    by (auto split: option.splits)
qed

text \<open>
  Instances: encoders that differ in \<open>prob_f\<close> and in their mask source have the same
  Bloom filter; encoders that differ in their mask source have the same masks; the PRR
  \<open>0x45\<close> is stored again when both draws fail.
\<close>

theorem deterministic_stages_witness:
  "md5_func (noisy_example None None :: (32 word, nat) Encoder)
     = md5_func (spec_example :: (32 word, nat) Encoder) \<and>
   MakeBloomFilter (noisy_example None None :: (32 word, nat) Encoder) ''x''
     = MakeBloomFilter (spec_example :: (32 word, nat) Encoder) ''x'' \<and>
   MakeBloomFilter (spec_example :: (32 word, nat) Encoder) ''x'' = Inr 0x28 \<and>
   GetPrrMasks (noisy_example None None :: (32 word, nat) Encoder) ''x''
     = GetPrrMasks (noisy_example (Some 1) (Some 2) :: (32 word, nat) Encoder) ''x'' \<and>
   EncodeInternal (noisy_example (Some 0xFF) (Some 0) :: (32 word, nat) Encoder) ''x''
     None None None 0 = Inr (True, Some 0x28, Some 0x45, Some 0xBA, 2) \<and>
   (\<exists>ok2 c' r2.
      EncodeInternal ((noisy_example (Some 0xFF) (Some 0) :: (32 word, nat) Encoder)
                        \<lparr>irr_rand := fixed_rand None None\<rparr>) ''x'' None None None 5
        = Inr (ok2, Some 0x28, Some 0x45, c', r2))"
proof -
  let ?n = "noisy_example None None :: (32 word, nat) Encoder"
  let ?m = "noisy_example (Some 1) (Some 2) :: (32 word, nat) Encoder"
  let ?s = "spec_example :: (32 word, nat) Encoder"
  let ?t = "noisy_example (Some 0xFF) (Some 0) :: (32 word, nat) Encoder"
  have f1: "md5_func ?n = md5_func ?s \<and> cohort ?n = cohort ?s \<and>
            num_bits ?n = num_bits ?s \<and> num_hashes ?n = num_hashes ?s"
    by (simp add: example_defs)
  have f2: "hmac_func ?n = hmac_func ?m \<and> client_secret ?n = client_secret ?m \<and>
            num_bits ?n = num_bits ?m \<and> prob_f ?n = prob_f ?m"
    by (simp add: example_defs)
  have b: "MakeBloomFilter ?s ''x'' = Inr 0x28"
    by (simp add: example_defs run_defs)
  have r: "EncodeInternal ?t ''x'' None None None 0
             = Inr (True, Some 0x28, Some 0x45, Some 0xBA, 2)"
    by (simp add: example_defs run_defs)
  have m1: "MakeBloomFilter ?n ''x'' = MakeBloomFilter ?s ''x''"
    using deterministic_stages [of ?n ?s "''x''" ?n] f1 by blast
  have m2: "GetPrrMasks ?n ''x'' = GetPrrMasks ?m ''x''"
    using deterministic_stages [of ?n ?m "''x''" ?n] f2 by blast
  have m3: "\<exists>ok2 c' r2.
      EncodeInternal (?t\<lparr>irr_rand := fixed_rand None None\<rparr>) ''x'' None None None 5
        = Inr (ok2, Some 0x28, Some 0x45, c', r2)"
    using deterministic_stages [of ?t ?t "''x''" ?t None None None 0] r by blast
  from f1 m1 b m2 r m3 show ?thesis by (intro conjI) simp_all
qed

text \<open>
  C8 as stated fails: two valid encoders with the same digest function and the same
  cohort, one with \<open>num_bits = 8\<close> and one with \<open>num_bits = 16\<close>, return different Bloom
  filters for the same value (the probe is digest byte 9).
\<close>

theorem deterministic_stages_counterexample:
  "md5_func (one_probe_example 8 :: (32 word, nat) Encoder)
     = md5_func (one_probe_example 16 :: (32 word, nat) Encoder) \<and>
   cohort (one_probe_example 8 :: (32 word, nat) Encoder)
     = cohort (one_probe_example 16 :: (32 word, nat) Encoder) \<and>
   IsValid (one_probe_example 8 :: (32 word, nat) Encoder) \<and>
   IsValid (one_probe_example 16 :: (32 word, nat) Encoder) \<and>
   MakeBloomFilter (one_probe_example 8 :: (32 word, nat) Encoder) ''x'' = Inr 0x002 \<and>
   MakeBloomFilter (one_probe_example 16 :: (32 word, nat) Encoder) ''x'' = Inr 0x200"
  by (simp add: example_defs run_defs)

subsection \<open>C9: the divisor of the probe\<close>

text \<open>
  C9 fails: \<open>num_bits = 0\<close> passes both checks of the constructor, and with
  \<open>num_hashes = 1\<close> the first probe computes \<^verbatim>\<open>md5[0] % 0\<close>.
\<close>

theorem valid_encoder_divides_by_zero:
  "IsValid (zero_bits_example :: (32 word, nat) Encoder) \<and>
   num_bits (zero_bits_example :: (32 word, nat) Encoder) = 0 \<and>
   num_hashes (zero_bits_example :: (32 word, nat) Encoder) = 1 \<and>
   MakeBloomFilter (zero_bits_example :: (32 word, nat) Encoder) ''x'' = Inl DivisionByZero \<and>
   Encode (zero_bits_example :: (32 word, nat) Encoder) ''x'' None 0 = Inl DivisionByZero"
  by (simp add: example_defs run_defs)

subsection \<open>C10: when irr_out is written\<close>

text \<open>
  C10. Let \<open>p\<close> be what \<^verbatim>\<open>PMask\<close> returns in the state \<open>r\<close> of the mask source and \<open>q\<close> what
  \<^verbatim>\<open>QMask\<close> returns in the state after it, and let the deterministic stages return
  \<open>bloom\<close> and the masks of the PRR \<open>prr\<close>. When a mask draw fails (\<^verbatim>\<open>PMask\<close>, or \<^verbatim>\<open>QMask\<close>
  after a successful \<^verbatim>\<open>PMask\<close>), \<^verbatim>\<open>_EncodeInternal\<close> and \<^verbatim>\<open>Encode\<close> return \<^verbatim>\<open>false\<close> and
  \<^verbatim>\<open>*irr_out\<close> is what it was before the call, whatever that was. When both draws
  succeed they return \<^verbatim>\<open>true\<close> and \<^verbatim>\<open>*irr_out\<close> holds the report, whatever it held before.
  In all three cases \<^verbatim>\<open>_EncodeInternal\<close> has assigned \<open>bloom\<close> to \<^verbatim>\<open>*bloom_out\<close> and \<open>prr\<close>
  to \<^verbatim>\<open>*prr_out\<close>. Every call that returns is one of these cases: a call returns only
  when both deterministic stages have returned.
\<close>

theorem irr_out_written_iff_draws_succeed:
  fixes e :: "('a::len word, 'r) Encoder"
  assumes "PMask (irr_rand e) r = (p, r1)" and "QMask (irr_rand e) r1 = (q, r2)"
  shows "(\<forall>bloom uniform f_mask prr.
            MakeBloomFilter e value = Inr bloom \<and>
            GetPrrMasks e value = Inr (uniform, f_mask) \<and>
            prr = (bloom AND NOT f_mask) OR (uniform AND f_mask) \<longrightarrow>
            (p = None \<longrightarrow>
               EncodeInternal e value bloom_out prr_out irr_out r
                 = Inr (False, Some bloom, Some prr, irr_out, r1) \<and>
               Encode e value irr_out r = Inr (False, irr_out, r1)) \<and>
            (p \<noteq> None \<and> q = None \<longrightarrow>
               EncodeInternal e value bloom_out prr_out irr_out r
                 = Inr (False, Some bloom, Some prr, irr_out, r2) \<and>
               Encode e value irr_out r = Inr (False, irr_out, r2)) \<and>
            (\<forall>p_bits q_bits. p = Some p_bits \<and> q = Some q_bits \<longrightarrow>
               EncodeInternal e value bloom_out prr_out irr_out r
                 = Inr (True, Some bloom, Some prr,
                        Some ((p_bits AND NOT prr) OR (q_bits AND prr)), r2) \<and>
               Encode e value irr_out r
                 = Inr (True, Some ((p_bits AND NOT prr) OR (q_bits AND prr)), r2))) \<and>
         (\<forall>res. EncodeInternal e value bloom_out prr_out irr_out r = Inr res \<longrightarrow>
            (\<exists>bloom m. MakeBloomFilter e value = Inr bloom \<and> GetPrrMasks e value = Inr m)) \<and>
         (\<forall>res. Encode e value irr_out r = Inr res \<longrightarrow>
            (\<exists>bloom m. MakeBloomFilter e value = Inr bloom \<and> GetPrrMasks e value = Inr m))"
proof (intro conjI allI impI)
  fix res
  assume "EncodeInternal e value bloom_out prr_out irr_out r = Inr res"
  from EncodeInternal_Inr_stages [OF this]
  show "\<exists>bloom m. MakeBloomFilter e value = Inr bloom \<and> GetPrrMasks e value = Inr m"
    by auto
next
  fix res
  assume "Encode e value irr_out r = Inr res"
  then obtain res' where "EncodeInternal e value None None irr_out r = Inr res'"
    unfolding Encode_eq by (auto split: sum.splits)
  from EncodeInternal_Inr_stages [OF this]
  show "\<exists>bloom m. MakeBloomFilter e value = Inr bloom \<and> GetPrrMasks e value = Inr m"
    by auto
next
  fix bloom uniform f_mask prr
  assume h: "MakeBloomFilter e value = Inr bloom \<and>
             GetPrrMasks e value = Inr (uniform, f_mask) \<and>
             prr = (bloom AND NOT f_mask) OR (uniform AND f_mask)"
  then have b: "MakeBloomFilter e value = Inr bloom"
    and g: "GetPrrMasks e value = Inr (uniform, f_mask)"
    and prr: "prr = (bloom AND NOT f_mask) OR (uniform AND f_mask)"
    by simp_all
  note eq = EncodeInternal_eq [OF b g prr assms]
  {
    assume "p = None"
    then show "EncodeInternal e value bloom_out prr_out irr_out r
                 = Inr (False, Some bloom, Some prr, irr_out, r1)"
      and "Encode e value irr_out r = Inr (False, irr_out, r1)"
      unfolding Encode_eq eq by simp_all
  }
  {
    assume "p \<noteq> None \<and> q = None"
    then show "EncodeInternal e value bloom_out prr_out irr_out r
                 = Inr (False, Some bloom, Some prr, irr_out, r2)"
      and "Encode e value irr_out r = Inr (False, irr_out, r2)"
      unfolding Encode_eq eq by auto
  }
  {
    fix p_bits q_bits
    assume "p = Some p_bits \<and> q = Some q_bits"
    then show "EncodeInternal e value bloom_out prr_out irr_out r
                 = Inr (True, Some bloom, Some prr,
                        Some ((p_bits AND NOT prr) OR (q_bits AND prr)), r2)"
      and "Encode e value irr_out r
                 = Inr (True, Some ((p_bits AND NOT prr) OR (q_bits AND prr)), r2)"
      unfolding Encode_eq eq by simp_all
  }
qed

text \<open>
  Instances: a source whose \<^verbatim>\<open>QMask\<close> fails (the cells for the Bloom filter and the PRR
  are written; \<^verbatim>\<open>*irr_out\<close> keeps 7, or stays unassigned) and a source whose draws
  succeed (\<^verbatim>\<open>*irr_out\<close> becomes \<open>0xBA\<close>).
\<close>

theorem irr_out_written_iff_draws_succeed_witness:
  "PMask (irr_rand (noisy_example (Some 0xFF) None :: (32 word, nat) Encoder)) 0
     = (Some 0xFF, 1) \<and>
   QMask (irr_rand (noisy_example (Some 0xFF) None :: (32 word, nat) Encoder)) 1 = (None, 2) \<and>
   MakeBloomFilter (noisy_example (Some 0xFF) None :: (32 word, nat) Encoder) ''x'' = Inr 0x28 \<and>
   GetPrrMasks (noisy_example (Some 0xFF) None :: (32 word, nat) Encoder) ''x''
     = Inr (0x55, 0xEF) \<and>
   EncodeInternal (noisy_example (Some 0xFF) None :: (32 word, nat) Encoder) ''x''
     None None (Some 7) 0 = Inr (False, Some 0x28, Some 0x45, Some 7, 2) \<and>
   Encode (noisy_example (Some 0xFF) None :: (32 word, nat) Encoder) ''x'' (Some 7) 0
     = Inr (False, Some 7, 2) \<and>
   Encode (noisy_example (Some 0xFF) None :: (32 word, nat) Encoder) ''x'' None 0
     = Inr (False, None, 2) \<and>
   PMask (irr_rand (noisy_example (Some 0xFF) (Some 0) :: (32 word, nat) Encoder)) 0
     = (Some 0xFF, 1) \<and>
   QMask (irr_rand (noisy_example (Some 0xFF) (Some 0) :: (32 word, nat) Encoder)) 1
     = (Some 0, 2) \<and>
   Encode (noisy_example (Some 0xFF) (Some 0) :: (32 word, nat) Encoder) ''x'' (Some 7) 0
     = Inr (True, Some 0xBA, 2)"
proof -
  let ?f = "noisy_example (Some 0xFF) None :: (32 word, nat) Encoder"
  let ?s = "noisy_example (Some 0xFF) (Some 0) :: (32 word, nat) Encoder"
  have pf: "PMask (irr_rand ?f) 0 = (Some 0xFF, 1)" and qf: "QMask (irr_rand ?f) 1 = (None, 2)"
    and ps: "PMask (irr_rand ?s) 0 = (Some 0xFF, 1)" and qs: "QMask (irr_rand ?s) 1 = (Some 0, 2)"
    by (simp_all add: example_defs)
  have bf: "MakeBloomFilter ?f ''x'' = Inr 0x28" and gf: "GetPrrMasks ?f ''x'' = Inr (0x55, 0xEF)"
    and bs: "MakeBloomFilter ?s ''x'' = Inr 0x28" and gs: "GetPrrMasks ?s ''x'' = Inr (0x55, 0xEF)"
    by (simp_all add: example_defs run_defs)
  have prr: "(0x45 :: 32 word) = (0x28 AND NOT 0xEF) OR (0x55 AND 0xEF)"
    by simp
  have irr: "((0xFF AND NOT 0x45) OR (0 AND 0x45) :: 32 word) = 0xBA"
    by simp
  have ne: "Some (0xFF :: 32 word) \<noteq> None \<and> (None :: 32 word option) = None"
    by simp
  from irr_out_written_iff_draws_succeed [OF pf qf, of "''x''" None None "Some 7"] bf gf prr ne
  have f1: "EncodeInternal ?f ''x'' None None (Some 7) 0
              = Inr (False, Some 0x28, Some 0x45, Some 7, 2)"
    and f2: "Encode ?f ''x'' (Some 7) 0 = Inr (False, Some 7, 2)"
    by blast+
  from irr_out_written_iff_draws_succeed [OF pf qf, of "''x''" None None None] bf gf prr ne
  have f3: "Encode ?f ''x'' None 0 = Inr (False, None, 2)"
    by blast
  from irr_out_written_iff_draws_succeed [OF ps qs, of "''x''" None None "Some 7"] bs gs prr
  have "Encode ?s ''x'' (Some 7) 0 = Inr (True, Some ((0xFF AND NOT 0x45) OR (0 AND 0x45)), 2)"
    by blast
  then have s1: "Encode ?s ''x'' (Some 7) 0 = Inr (True, Some 0xBA, 2)"
    by (simp only: irr)
  from pf qf bf gf f1 f2 f3 ps qs s1 show ?thesis by (intro conjI)
qed

end
